theory Spec2Isabelle
  imports Main "HOL-Library.Word" "HOL-Library.Sublist"
begin

section \<open>Library functions the collector calls\<close>

text \<open>
  The transaction processor of the mempool collector (\<^verbatim>\<open>collector/tx_processor.go\<close>)
  formats rows with \<^verbatim>\<open>fmt.Fprintf\<close>, renders bucket times with \<^verbatim>\<open>time.Format\<close>, joins
  paths with \<^verbatim>\<open>filepath.Join\<close> and prints hashes with \<^verbatim>\<open>Hash.Hex\<close>.  These are functions of
  the Go standard library and of go-ethereum; they are modelled here by what they compute
  on the values the processor passes to them.
\<close>

subsection \<open>Decimal and hexadecimal printing\<close>

definition digit_char :: "nat \<Rightarrow> char" where
  "digit_char n = ''0123456789'' ! n"

text \<open>
  Decimal digits, most significant first, of a number that is not negative.  The
  recursion is on \<open>int\<close>, where numerals are binary.
\<close>

function show_digits :: "int \<Rightarrow> string" where
  "show_digits n =
     (if n < 10 then [digit_char (nat n)] else show_digits (n div 10) @ [digit_char (nat (n mod 10))])"
  by pat_completeness auto
termination
  by (relation "measure nat") auto

declare show_digits.simps [simp del]

text \<open>The verb \<^verbatim>\<open>%d\<close> on an \<^verbatim>\<open>int64\<close>, and \<^verbatim>\<open>big.Int.String\<close>: a minus sign, then the digits.\<close>

definition show_int :: "int \<Rightarrow> string" where
  "show_int i = (if i < 0 then CHR ''-'' # show_digits (- i) else show_digits i)"

text \<open>
  \<^verbatim>\<open>appendInt(b, x, width)\<close> of package \<^verbatim>\<open>time\<close>: the sign when \<open>x\<close> is negative, then the
  digits of \<open>|x|\<close> padded with zeros on the left to \<open>width\<close>.
\<close>

definition appendInt :: "int \<Rightarrow> nat \<Rightarrow> string" where
  "appendInt x width =
     (let ds = show_digits \<bar>x\<bar>;
          padded = replicate (width - length ds) CHR ''0'' @ ds
      in if x < 0 then CHR ''-'' # padded else padded)"

type_synonym byte = "8 word"

definition hex_char :: "nat \<Rightarrow> char" where
  "hex_char n = ''0123456789abcdef'' ! n"

definition hex_byte :: "byte \<Rightarrow> string" where
  "hex_byte b = [hex_char (unat b div 16), hex_char (unat b mod 16)]"

text \<open>\<^verbatim>\<open>hexutil.Encode\<close>, which \<^verbatim>\<open>Hash.Hex\<close> agrees with on 32 bytes: \<^verbatim>\<open>0x\<close> and two lowercase digits a byte.\<close>

definition hexutil_Encode :: "byte list \<Rightarrow> string" where
  "hexutil_Encode bs = ''0x'' @ concat (map hex_byte bs)"

subsection \<open>Integer division of Go\<close>

text \<open>
  The operator \<^verbatim>\<open>/\<close> on \<^verbatim>\<open>int64\<close> truncates towards zero, where \<open>div\<close> of HOL rounds down.
  The quotient is never larger in magnitude than the dividend, so no multiplication of
  the processor by the divisor wraps around.
\<close>

definition go_div :: "int \<Rightarrow> int \<Rightarrow> int" where
  "go_div a b = (if (a < 0) = (b < 0) then \<bar>a\<bar> div \<bar>b\<bar> else - (\<bar>a\<bar> div \<bar>b\<bar>))"

subsection \<open>Calendar time in UTC\<close>

text \<open>
  \<^verbatim>\<open>time.Unix(sec, 0).UTC()\<close> read as a date of the proleptic Gregorian calendar and a time
  of day.  \<open>civil_from_days\<close> takes the number of days since 1970-01-01 to year, month and
  day; the computation counts from 0000-03-01 in eras of 400 years.
\<close>

definition civil_from_days :: "int \<Rightarrow> int \<times> int \<times> int" where
  "civil_from_days z0 =
     (let z = z0 + 719468;
          era = z div 146097;
          doe = z mod 146097;
          yoe = (doe - doe div 1460 + doe div 36524 - doe div 146096) div 365;
          doy = doe - (365 * yoe + yoe div 4 - yoe div 100);
          mp = (5 * doy + 2) div 153;
          d = doy - (153 * mp + 2) div 5 + 1;
          m = (if mp < 10 then mp + 3 else mp - 9);
          y = yoe + era * 400 + (if m \<le> 2 then 1 else 0)
      in (y, m, d))"

text \<open>The layout \<^verbatim>\<open>time.DateOnly\<close>, that is \<^verbatim>\<open>2006-01-02\<close>.\<close>

definition format_DateOnly :: "int \<Rightarrow> string" where
  "format_DateOnly sec =
     (case civil_from_days (sec div 86400) of
        (y, m, d) \<Rightarrow> appendInt y 4 @ ''-'' @ appendInt m 2 @ ''-'' @ appendInt d 2)"

text \<open>The layout \<^verbatim>\<open>2006-01-02_15-04\<close>: the date, then hour and minute of the day.\<close>

definition format_DateHourMin :: "int \<Rightarrow> string" where
  "format_DateHourMin sec =
     (let sod = sec mod 86400
      in format_DateOnly sec @ ''_'' @ appendInt (sod div 3600) 2 @ ''-''
           @ appendInt (sod mod 3600 div 60) 2)"

subsection \<open>Paths\<close>

text \<open>
  \<^verbatim>\<open>filepath.Join\<close> drops empty elements and puts a separator between the others.  It
  then normalises the result with \<^verbatim>\<open>Clean\<close>; the elements the processor joins are taken
  to be clean already (no \<^verbatim>\<open>.\<close>, \<^verbatim>\<open>..\<close> or doubled separator), and \<^verbatim>\<open>Clean\<close> is not modelled.
\<close>

fun join_sep :: "string list \<Rightarrow> string" where
  "join_sep [] = []"
| "join_sep [x] = x"
| "join_sep (x # y # ys) = x @ ''/'' @ join_sep (y # ys)"

definition filepath_Join :: "string list \<Rightarrow> string" where
  "filepath_Join elems = join_sep (filter (\<lambda>e. e \<noteq> []) elems)"

section \<open>Data model\<close>

subsection \<open>Transactions and arrivals\<close>

type_synonym hash = "byte list"

text \<open>A \<^verbatim>\<open>time.Time\<close> is the number of nanoseconds since the Unix epoch.\<close>

type_synonym time = int

definition Unix :: "time \<Rightarrow> int" where
  "Unix t = t div 1000000000"

definition UnixMilli :: "time \<Rightarrow> int" where
  "UnixMilli t = t div 1000000"

text \<open>
  The decoded transaction is opaque to the processor, which only asks it for its hash
  and, through \<^verbatim>\<open>common.TxToRLPString\<close>, for its binary encoding (which may fail).
\<close>

record Transaction =
  Hash :: hash
  MarshalBinary :: "string + byte list"

record TxIn =
  T :: time
  Tx :: Transaction
  Source :: string

definition Hex :: "hash \<Rightarrow> string" where
  "Hex h = hexutil_Encode h"

text \<open>
  Modelled from the spec: \<^verbatim>\<open>common.TxToRLPString\<close> is not among the sources; the raw form
  of a row is the \<^verbatim>\<open>0x\<close>-prefixed lowercase canonical serialization, and encoding can fail.
\<close>

definition TxToRLPString :: "Transaction \<Rightarrow> string + string" where
  "TxToRLPString tx =
     (case MarshalBinary tx of Inl err \<Rightarrow> Inl err | Inr b \<Rightarrow> Inr (hexutil_Encode b))"

subsection \<open>Constants declared outside the processor\<close>

text \<open>Modelled from the spec: the constant \<^verbatim>\<open>bucketMinutes\<close>, by default 60.\<close>

definition bucketMinutes :: int where
  "bucketMinutes = 60"

text \<open>Modelled from the spec: the constant \<^verbatim>\<open>txCacheTime\<close>, by default 30 minutes, in nanoseconds.\<close>

definition txCacheTime :: int where
  "txCacheTime = 30 * 60 * 1000000000"

text \<open>Modelled from the spec: the one reason a row of the trash file gives.\<close>

definition TrashTxAlreadyOnChain :: string where
  "TrashTxAlreadyOnChain = ''tx-already-on-chain''"

subsection \<open>The processor and the world it writes to\<close>

text \<open>
  An open \<^verbatim>\<open>os.File\<close> is known by the name it was opened under; every write through it
  appends to the file of that name.
\<close>

type_synonym os_file = string

record OutFiles =
  FTxs :: os_file
  FSourcelog :: os_file
  FTrash :: os_file

record TxProcessorOpts =
  OutDir :: string
  UID :: string
  CheckNodeURI :: string
  WriteSourcelog :: bool

text \<open>
  The counter of arrivals per source: counter type, then source, then key.  The
  processor calls its type \<^verbatim>\<open>SourceCounter\<close>; the methods are those of \<^verbatim>\<open>SourceMetrics\<close>.
\<close>

type_synonym counts = "string \<rightharpoonup> (string \<rightharpoonup> (string \<rightharpoonup> 64 word))"

datatype level = Debug | Info | Error

text \<open>
  The fields of \<^verbatim>\<open>TxProcessor\<close> that change, and the world around them: the contents of
  the files, the directories made, the file handles that are open, and the log.  The
  map \<open>outFiles\<close> is a list of pairs with distinct keys.
\<close>

record state =
  outFiles :: "(int \<times> OutFiles) list"
  knownTxs :: "hash \<rightharpoonup> time"
  txCnt :: "64 word"
  srcCnt :: counts
  files :: "string \<rightharpoonup> string"
  dirs :: "string set"
  handles :: "os_file list"
  logs :: "(level \<times> string) list"

text \<open>\<^verbatim>\<open>NewTxProcessor\<close>: empty maps, over whatever the disk holds.\<close>

definition NewTxProcessor :: "(string \<rightharpoonup> string) \<Rightarrow> state" where
  "NewTxProcessor disk =
     \<lparr>outFiles = [], knownTxs = Map.empty, txCnt = 0, srcCnt = Map.empty,
      files = disk, dirs = {}, handles = [], logs = []\<rparr>"

text \<open>
  What the world answers during one call of \<^verbatim>\<open>processTx\<close>: the error of \<^verbatim>\<open>os.MkdirAll\<close>,
  of \<^verbatim>\<open>os.OpenFile\<close> and of a write, by path (\<open>None\<close> is success), and the answer of
  \<^verbatim>\<open>ethClient.TransactionReceipt\<close>: an error, or a receipt with its block number, or neither.
\<close>

record env =
  mkdir_err :: "string \<Rightarrow> string option"
  open_err :: "string \<Rightarrow> string option"
  write_err :: "os_file \<Rightarrow> string option"
  receipt_err :: "string option"
  receipt :: "int option"

definition content :: "state \<Rightarrow> string \<Rightarrow> string" where
  "content s fn = (case files s fn of None \<Rightarrow> [] | Some c \<Rightarrow> c)"

definition log_msg :: "level \<Rightarrow> string \<Rightarrow> state \<Rightarrow> state" where
  "log_msg lvl msg s = s\<lparr>logs := logs s @ [(lvl, msg)]\<rparr>"

definition MkdirAll :: "env \<Rightarrow> string \<Rightarrow> state \<Rightarrow> string option \<times> state" where
  "MkdirAll e dir s =
     (case mkdir_err e dir of
        Some err \<Rightarrow> (Some err, s)
      | None \<Rightarrow> (None, s\<lparr>dirs := insert dir (dirs s)\<rparr>))"

text \<open>\<^verbatim>\<open>os.OpenFile\<close> with \<^verbatim>\<open>O_APPEND|O_CREATE|O_WRONLY\<close>: an absent file is created empty.\<close>

definition OpenFile :: "env \<Rightarrow> string \<Rightarrow> state \<Rightarrow> (string + os_file) \<times> state" where
  "OpenFile e fn s =
     (case open_err e fn of
        Some err \<Rightarrow> (Inl err, s)
      | None \<Rightarrow> (Inr fn, s\<lparr>files := (files s)(fn \<mapsto> content s fn), handles := handles s @ [fn]\<rparr>))"

text \<open>\<^verbatim>\<open>fmt.Fprintf\<close> on a file opened for appending; a write that fails leaves the file as it was.\<close>

definition Fprintf :: "env \<Rightarrow> os_file \<Rightarrow> string \<Rightarrow> state \<Rightarrow> string option \<times> state" where
  "Fprintf e f txt s =
     (case write_err e f of
        Some err \<Rightarrow> (Some err, s)
      | None \<Rightarrow> (None, s\<lparr>files := (files s)(f \<mapsto> content s f @ txt)\<rparr>))"

definition Close :: "os_file \<Rightarrow> state \<Rightarrow> state" where
  "Close f s = s\<lparr>handles := remove1 f (handles s)\<rparr>"

section \<open>SourceMetrics\<close>

definition Inc :: "string \<Rightarrow> string \<Rightarrow> counts \<Rightarrow> counts" where
  "Inc cntType source c =
     (let c1 = (if c cntType = None then c(cntType \<mapsto> Map.empty) else c);
          bySource = the (c1 cntType);
          bySource1 = (if bySource source = None then bySource(source \<mapsto> Map.empty) else bySource);
          byKey = the (bySource1 source);
          n = (case byKey cntType of None \<Rightarrow> 0 | Some v \<Rightarrow> v)
      in c1(cntType \<mapsto> bySource1(source \<mapsto> byKey(cntType \<mapsto> n + 1))))"

definition IncKey :: "string \<Rightarrow> string \<Rightarrow> string \<Rightarrow> counts \<Rightarrow> counts" where
  "IncKey cntType source key c =
     (let c1 = (if c cntType = None then c(cntType \<mapsto> Map.empty) else c);
          bySource = the (c1 cntType);
          bySource1 = (if bySource source = None then bySource(source \<mapsto> Map.empty) else bySource);
          byKey = the (bySource1 source);
          n = (case byKey key of None \<Rightarrow> 0 | Some v \<Rightarrow> v)
      in c1(cntType \<mapsto> bySource1(source \<mapsto> byKey(key \<mapsto> n + 1))))"

definition Get :: "string \<Rightarrow> counts \<Rightarrow> (string \<rightharpoonup> (string \<rightharpoonup> 64 word))" where
  "Get cntType c = (case c cntType of None \<Rightarrow> Map.empty | Some m \<Rightarrow> m)"

definition Reset :: "counts \<Rightarrow> counts" where
  "Reset c = Map.empty"

section \<open>The output files of a bucket\<close>

definition getFilename :: "TxProcessorOpts \<Rightarrow> string \<Rightarrow> int \<Rightarrow> string" where
  "getFilename p pfx timestamp =
     (let pfx1 = (if pfx \<noteq> [] then pfx @ ''_'' else pfx)
      in pfx1 @ format_DateHourMin timestamp @ ''_'' @ UID p @ ''.csv'')"

text \<open>
  \<^verbatim>\<open>getOutputCSVFiles\<close> returns the handles of the bucket of \<open>timestamp\<close> and whether it
  has just opened them, or the error of the step that failed.  Every \<^verbatim>\<open>return nil, false, err\<close>
  of the source is a branch \<open>Inl err\<close> here, in the state that the steps before it left.
\<close>

definition getOutputCSVFiles ::
  "TxProcessorOpts \<Rightarrow> env \<Rightarrow> int \<Rightarrow> state \<Rightarrow> (string + OutFiles \<times> bool) \<times> state" where
  "getOutputCSVFiles p e timestamp s =
     (let sec = bucketMinutes * 60;
          bucketTS = go_div timestamp sec * sec;
          date = format_DateOnly bucketTS
      in case map_of (outFiles s) bucketTS of
           Some cached \<Rightarrow> (Inr (cached, False), s)
         | None \<Rightarrow>
             let dir1 = filepath_Join [OutDir p, date, ''transactions''] in
             (case MkdirAll e dir1 s of
                (Some err, s1) \<Rightarrow> (Inl err, s1)
              | (None, s1) \<Rightarrow>
                  let fn1 = filepath_Join [dir1, getFilename p ''txs'' bucketTS] in
                  (case OpenFile e fn1 s1 of
                     (Inl err, s2) \<Rightarrow> (Inl err, s2)
                   | (Inr fTx, s2) \<Rightarrow>
                       let dir2 = filepath_Join [OutDir p, date, ''sourcelog''] in
                       (case MkdirAll e dir2 s2 of
                          (Some err, s3) \<Rightarrow> (Inl err, s3)
                        | (None, s3) \<Rightarrow>
                            let fn2 = filepath_Join [dir2, getFilename p ''src'' bucketTS] in
                            (case OpenFile e fn2 s3 of
                               (Inl err, s4) \<Rightarrow> (Inl err, s4)
                             | (Inr fSourcelog, s4) \<Rightarrow>
                                 let dir3 = filepath_Join [OutDir p, date, ''trash''] in
                                 (case MkdirAll e dir3 s4 of
                                    (Some err, s5) \<Rightarrow> (Inl err, s5)
                                  | (None, s5) \<Rightarrow>
                                      let fn3 = filepath_Join [dir3, getFilename p ''trash'' bucketTS] in
                                      (case OpenFile e fn3 s5 of
                                         (Inl err, s6) \<Rightarrow> (Inl err, s6)
                                       | (Inr fTrash, s6) \<Rightarrow>
                                           let opened = \<lparr>FTxs = fTx, FSourcelog = fSourcelog, FTrash = fTrash\<rparr>
                                           in (Inr (opened, True),
                                               s6\<lparr>outFiles := (bucketTS, opened) # outFiles s6\<rparr>))))))))"

section \<open>Processing one arrival\<close>

text \<open>
  \<^verbatim>\<open>processTx\<close> returns nothing; the model returns which of its \<^verbatim>\<open>return\<close> statements ended
  the call, with the error where there was one.
\<close>

datatype outcome =
    ErrGetOutputFiles string
  | ErrSourcelogWrite string
  | AlreadyProcessed
  | AlreadyOnChain
  | ErrTrashWrite string
  | ErrEncodeRlp string
  | ErrTxsWrite string
  | Persisted

text \<open>The three formats given to \<^verbatim>\<open>fmt.Fprintf\<close>.\<close>

definition sourcelog_row :: "TxIn \<Rightarrow> string" where
  "sourcelog_row txIn =
     show_int (UnixMilli (T txIn)) @ '','' @ Hex (Hash (Tx txIn)) @ '','' @ Source txIn @ [CHR 0x0A]"

definition trash_row :: "TxIn \<Rightarrow> int \<Rightarrow> string" where
  "trash_row txIn blockNumber =
     show_int (UnixMilli (T txIn)) @ '','' @ Hex (Hash (Tx txIn)) @ '','' @ Source txIn @ '',''
       @ TrashTxAlreadyOnChain @ '','' @ show_int blockNumber @ [CHR 0x0A]"

definition txs_row :: "TxIn \<Rightarrow> string \<Rightarrow> string" where
  "txs_row txIn rlpHex =
     show_int (UnixMilli (T txIn)) @ '','' @ Hex (Hash (Tx txIn)) @ '','' @ rlpHex @ [CHR 0x0A]"

text \<open>
  The end of \<^verbatim>\<open>processTx\<close>, from the count of unique transactions on: the code that
  follows the inclusion check, reached when the check is off, when it fails, and when it
  finds no receipt.
\<close>

definition processTx_first :: "env \<Rightarrow> TxIn \<Rightarrow> OutFiles \<Rightarrow> state \<Rightarrow> outcome \<times> state" where
  "processTx_first e txIn out s =
     (let s1 = s\<lparr>txCnt := txCnt s + 1\<rparr>;
          s2 = s1\<lparr>srcCnt := Inc ''first'' (Source txIn) (srcCnt s1)\<rparr>
      in case TxToRLPString (Tx txIn) of
           Inl err \<Rightarrow> (ErrEncodeRlp err, log_msg Error ''failed to encode rlp'' s2)
         | Inr rlpHex \<Rightarrow>
             (case Fprintf e (FTxs out) (txs_row txIn rlpHex) s2 of
                (Some err, s3) \<Rightarrow> (ErrTxsWrite err, log_msg Error ''fmt.Fprintf'' s3)
              | (None, s3) \<Rightarrow>
                  (Persisted, s3\<lparr>knownTxs := (knownTxs s3)(Hash (Tx txIn) \<mapsto> T txIn)\<rparr>)))"

text \<open>
  The middle of \<^verbatim>\<open>processTx\<close>, with the files of the bucket at hand: the row of the
  sourcelog, the probe of the cache of known transactions, and the inclusion check.
  \<^verbatim>\<open>Start\<close> sets \<^verbatim>\<open>ethClient\<close> exactly when \<^verbatim>\<open>CheckNodeURI\<close> is not empty (and ends the process when
  the dial fails), so \<^verbatim>\<open>p.ethClient != nil\<close> is \<open>CheckNodeURI p \<noteq> []\<close>.
\<close>

definition processTx_opened ::
  "TxProcessorOpts \<Rightarrow> env \<Rightarrow> TxIn \<Rightarrow> OutFiles \<Rightarrow> state \<Rightarrow> outcome \<times> state" where
  "processTx_opened p e txIn out s =
     (let txHash = Hash (Tx txIn)
      in case (if WriteSourcelog p
               then Fprintf e (FSourcelog out) (sourcelog_row txIn) s
               else (None, s)) of
           (Some err, s1) \<Rightarrow> (ErrSourcelogWrite err, log_msg Error ''fmt.Fprintf'' s1)
         | (None, s1) \<Rightarrow>
             (case knownTxs s1 txHash of
                Some seen \<Rightarrow> (AlreadyProcessed, log_msg Debug ''transaction already processed'' s1)
              | None \<Rightarrow>
                  if CheckNodeURI p \<noteq> [] then
                    (case receipt_err e of
                       Some err \<Rightarrow>
                         if err = ''not found'' then processTx_first e txIn out s1
                         else processTx_first e txIn out
                                (log_msg Error ''ethClient.TransactionReceipt'' s1)
                     | None \<Rightarrow>
                         (case receipt e of
                            Some blockNumber \<Rightarrow>
                              let s2 = log_msg Debug ''transaction already included'' s1 in
                              (case Fprintf e (FTrash out) (trash_row txIn blockNumber) s2 of
                                 (Some err, s3) \<Rightarrow> (ErrTrashWrite err, log_msg Error ''fmt.Fprintf'' s3)
                               | (None, s3) \<Rightarrow> (AlreadyOnChain, s3))
                          | None \<Rightarrow> processTx_first e txIn out s1))
                  else processTx_first e txIn out s1))"

text \<open>
  The beginning of \<^verbatim>\<open>processTx\<close>: the counts of the arrival per source and the files of
  its bucket.
\<close>

definition processTx :: "TxProcessorOpts \<Rightarrow> env \<Rightarrow> TxIn \<Rightarrow> state \<Rightarrow> outcome \<times> state" where
  "processTx p e txIn s =
     (let txHash = Hash (Tx txIn);
          s1 = log_msg Debug ''processTx'' s;
          s2 = s1\<lparr>srcCnt := Inc ''all'' (Source txIn) (srcCnt s1)\<rparr>;
          s3 = s2\<lparr>srcCnt := IncKey ''unique'' (Source txIn) (Hex txHash) (srcCnt s2)\<rparr>
      in case getOutputCSVFiles p e (Unix (T txIn)) s3 of
           (Inl err, s4) \<Rightarrow> (ErrGetOutputFiles err, log_msg Error ''getOutputFiles'' s4)
         | (Inr (out, isCreated), s4) \<Rightarrow>
             let s5 = (if isCreated
                       then log_msg Info (''new file created: '' @ FTrash out)
                              (log_msg Info (''new file created: '' @ FSourcelog out)
                                (log_msg Info (''new file created: '' @ FTxs out) s4))
                       else s4)
             in processTx_opened p e txIn out s5)"

text \<open>
  The loop of \<^verbatim>\<open>Start\<close> over the channel: the arrivals in the order received, each with
  what the world answers during its call.
\<close>

fun processAll :: "TxProcessorOpts \<Rightarrow> (env \<times> TxIn) list \<Rightarrow> state \<Rightarrow> outcome list \<times> state" where
  "processAll p [] s = ([], s)"
| "processAll p (x # xs) s =
     (case processTx p (fst x) (snd x) s of
        (oc, s1) \<Rightarrow> (case processAll p xs s1 of (ocs, s2) \<Rightarrow> (oc # ocs, s2)))"

section \<open>The housekeeper\<close>

text \<open>
  \<^verbatim>\<open>time.Since(v)\<close> is \<^verbatim>\<open>time.Now().Sub(v)\<close>, a \<^verbatim>\<open>Duration\<close>: the difference in nanoseconds, kept
  within the range of \<^verbatim>\<open>int64\<close>.
\<close>

definition Since :: "time \<Rightarrow> time \<Rightarrow> int" where
  "Since now v = max (- (2 ^ 63)) (min (2 ^ 63 - 1) (now - v))"

text \<open>
  One pass of the loop of \<^verbatim>\<open>cleanupBackgroundTask\<close>, after its sleep of one minute.  The
  clock readings of a pass are taken at one instant \<open>now\<close>.  The first step removes the old
  transactions from the cache.
\<close>

definition cleanupKnownTxs :: "time \<Rightarrow> (hash \<rightharpoonup> time) \<Rightarrow> (hash \<rightharpoonup> time)" where
  "cleanupKnownTxs now known =
     (\<lambda>k. case known k of
             None \<Rightarrow> None
           | Some v \<Rightarrow> if Since now v > txCacheTime then None else Some v)"

text \<open>The second step closes and forgets the handles of old buckets.\<close>

fun cleanupOutFiles :: "time \<Rightarrow> (int \<times> OutFiles) list \<Rightarrow> state \<Rightarrow> state" where
  "cleanupOutFiles now [] s = s"
| "cleanupOutFiles now ((timestamp, out) # rest) s =
     (let usageSec = bucketMinutes * 60 * 2;
          s1 = (if Unix now - timestamp > usageSec
                then Close (FTrash out) (Close (FSourcelog out) (Close (FTxs out)
                       ((log_msg Info ''closing output files'' s)
                          \<lparr>outFiles := filter (\<lambda>kv. fst kv \<noteq> timestamp) (outFiles s)\<rparr>)))
                else s)
      in cleanupOutFiles now rest s1)"

text \<open>Then the pass logs the statistics and resets the counters.\<close>

definition cleanupPass :: "time \<Rightarrow> state \<Rightarrow> state" where
  "cleanupPass now s =
     (let s1 = s\<lparr>knownTxs := cleanupKnownTxs now (knownTxs s)\<rparr>;
          s2 = cleanupOutFiles now (outFiles s1) s1;
          s3 = log_msg Info ''source_stats_all'' (log_msg Info ''source_stats_unique''
                 (log_msg Info ''source_stats_first'' (log_msg Info ''stats'' s2)))
      in s3\<lparr>srcCnt := Reset (srcCnt s3), txCnt := 0\<rparr>)"

text \<open>
  The consumer and the housekeeper take turns on the shared maps under their locks; a
  history of the processor is a sequence of arrivals and passes.
\<close>

datatype event = Arrival env TxIn | Pass time

fun run :: "TxProcessorOpts \<Rightarrow> event list \<Rightarrow> state \<Rightarrow> state" where
  "run p [] s = s"
| "run p (Arrival e txIn # evs) s = run p evs (snd (processTx p e txIn s))"
| "run p (Pass now # evs) s = run p evs (cleanupPass now s)"

section \<open>Notions the properties are stated with\<close>

text \<open>
  The key of a bucket as \<^verbatim>\<open>getOutputCSVFiles\<close> computes it, and the three paths it opens
  for that key: the directory of the category under the day of the bucket, then the
  file name.
\<close>

definition bucketTS :: "int \<Rightarrow> int" where
  "bucketTS timestamp = go_div timestamp (bucketMinutes * 60) * (bucketMinutes * 60)"

definition bucket_dir :: "TxProcessorOpts \<Rightarrow> string \<Rightarrow> int \<Rightarrow> string" where
  "bucket_dir p category b = filepath_Join [OutDir p, format_DateOnly b, category]"

definition bucket_path :: "TxProcessorOpts \<Rightarrow> string \<Rightarrow> string \<Rightarrow> int \<Rightarrow> string" where
  "bucket_path p category pfx b = filepath_Join [bucket_dir p category b, getFilename p pfx b]"

definition bucket_files :: "TxProcessorOpts \<Rightarrow> int \<Rightarrow> OutFiles" where
  "bucket_files p b =
     \<lparr>FTxs = bucket_path p ''transactions'' ''txs'' b,
      FSourcelog = bucket_path p ''sourcelog'' ''src'' b,
      FTrash = bucket_path p ''trash'' ''trash'' b\<rparr>"

text \<open>The cache of handles holds, under a key, the files of that key.\<close>

definition files_inv :: "TxProcessorOpts \<Rightarrow> state \<Rightarrow> bool" where
  "files_inv p s = (\<forall>kv \<in> set (outFiles s). snd kv = bucket_files p (fst kv))"

text \<open>Two states that differ at most in the handles, the directories and the cache of handles.\<close>

definition same_cache :: "state \<Rightarrow> state \<Rightarrow> bool" where
  "same_cache s s' \<longleftrightarrow>
     knownTxs s' = knownTxs s \<and> txCnt s' = txCnt s \<and> srcCnt s' = srcCnt s \<and> logs s' = logs s
     \<and> content s' = content s"

text \<open>What a path under \<^verbatim>\<open>OutDir\<close> starts with.\<close>

definition out_root :: "TxProcessorOpts \<Rightarrow> string" where
  "out_root p = (if OutDir p = [] then [] else OutDir p @ ''/'')"

section \<open>Example inputs\<close>

text \<open>A collector with sourcelog on and no check node, and one with a check node.\<close>

definition opts_plain :: TxProcessorOpts where
  "opts_plain = \<lparr>OutDir = ''out'', UID = ''u1'', CheckNodeURI = [], WriteSourcelog = True\<rparr>"

definition opts_check :: TxProcessorOpts where
  "opts_check = \<lparr>OutDir = ''out'', UID = ''u1'', CheckNodeURI = ''http://node:8545'', WriteSourcelog = True\<rparr>"

text \<open>A world in which every step succeeds and the node knows no receipt.\<close>

definition env_ok :: env where
  "env_ok = \<lparr>mkdir_err = (\<lambda>d. None), open_err = (\<lambda>f. None), write_err = (\<lambda>f. None),
              receipt_err = None, receipt = None\<rparr>"

text \<open>
  The same transaction seen by two sources, half a second apart, on 2023-11-14 at
  22:13:20 UTC.
\<close>

definition arrival_local :: TxIn where
  "arrival_local =
     \<lparr>T = 1700000000000000000,
      Tx = \<lparr>Hash = [0xaa, 0x01], MarshalBinary = Inr [0xbb, 0x02]\<rparr>,
      Source = ''local''\<rparr>"

definition arrival_blx :: TxIn where
  "arrival_blx =
     \<lparr>T = 1700000000500000000,
      Tx = \<lparr>Hash = [0xaa, 0x01], MarshalBinary = Inr [0xbb, 0x02]\<rparr>,
      Source = ''blx''\<rparr>"

text \<open>Worlds in which the write to the transactions file fails, and in which the node answers.\<close>

definition env_txs_fails :: env where
  "env_txs_fails = env_ok\<lparr>write_err :=
     (\<lambda>f. if f = ''out/2023-11-14/transactions/txs_2023-11-14_22-00_u1.csv''
          then Some ''no space left on device'' else None)\<rparr>"

definition env_on_chain :: env where
  "env_on_chain = env_ok\<lparr>receipt := Some 18000000\<rparr>"





section \<open>Notions about one arrival\<close>

text \<open>The state in which \<^verbatim>\<open>processTx\<close> asks for the files: the arrival is counted.\<close>

definition counted :: "TxIn \<Rightarrow> state \<Rightarrow> state" where
  "counted a s =
     (log_msg Debug ''processTx'' s)
       \<lparr>srcCnt := IncKey ''unique'' (Source a) (Hex (Hash (Tx a))) (Inc ''all'' (Source a) (srcCnt s))\<rparr>"

text \<open>The state in which the files are resolved, or the open has failed.\<close>

definition resolved :: "TxProcessorOpts \<Rightarrow> env \<Rightarrow> TxIn \<Rightarrow> state \<Rightarrow> state" where
  "resolved p e a s = snd (getOutputCSVFiles p e (Unix (T a)) (counted a s))"

text \<open>The log lines about files just created.\<close>

definition announced :: "bool \<Rightarrow> OutFiles \<Rightarrow> state \<Rightarrow> state" where
  "announced isCreated out s =
     (if isCreated
      then log_msg Info (''new file created: '' @ FTrash out)
             (log_msg Info (''new file created: '' @ FSourcelog out)
               (log_msg Info (''new file created: '' @ FTxs out) s))
      else s)"

text \<open>The state after the row of the sourcelog is written, when it is to be written.\<close>

definition sourcelogged :: "TxProcessorOpts \<Rightarrow> TxIn \<Rightarrow> OutFiles \<Rightarrow> state \<Rightarrow> state" where
  "sourcelogged p a out s =
     (if WriteSourcelog p
      then s\<lparr>files := (files s)(FSourcelog out \<mapsto> content s (FSourcelog out) @ sourcelog_row a)\<rparr>
      else s)"

text \<open>The inclusion check is on and answers with a receipt.\<close>

definition included :: "TxProcessorOpts \<Rightarrow> env \<Rightarrow> bool" where
  "included p e \<longleftrightarrow> CheckNodeURI p \<noteq> [] \<and> receipt_err e = None \<and> receipt e \<noteq> None"

text \<open>The state in which the end of \<^verbatim>\<open>processTx\<close> starts: an error of the check other than "not found" is logged.\<close>

definition checked :: "TxProcessorOpts \<Rightarrow> env \<Rightarrow> state \<Rightarrow> state" where
  "checked p e s =
     (if CheckNodeURI p \<noteq> [] \<and> receipt_err e \<noteq> None \<and> receipt_err e \<noteq> Some ''not found''
      then log_msg Error ''ethClient.TransactionReceipt'' s else s)"

text \<open>The world lets every directory be made and every file be opened; it lets every write pass.\<close>

definition opens_ok :: "env \<Rightarrow> bool" where
  "opens_ok e \<longleftrightarrow> (\<forall>d. mkdir_err e d = None) \<and> (\<forall>f. open_err e f = None)"

definition writes_ok :: "env \<Rightarrow> bool" where
  "writes_ok e \<longleftrightarrow> (\<forall>f. write_err e f = None)"

text \<open>The outcomes that are errors, each logged at the level \<open>Error\<close> before the return.\<close>

fun is_error :: "outcome \<Rightarrow> bool" where
  "is_error (ErrGetOutputFiles err) = True"
| "is_error (ErrSourcelogWrite err) = True"
| "is_error (ErrTrashWrite err) = True"
| "is_error (ErrEncodeRlp err) = True"
| "is_error (ErrTxsWrite err) = True"
| "is_error oc = False"

text \<open>The files of the bucket of an arrival.\<close>

definition arrival_files :: "TxProcessorOpts \<Rightarrow> TxIn \<Rightarrow> OutFiles" where
  "arrival_files p a = bucket_files p (bucketTS (Unix (T a)))"

section \<open>Histories of arrivals, as the properties describe them\<close>

text \<open>
  How a sequence of arrivals should end when every step succeeds: an arrival whose
  hash has been seen stops at the probe, one that the check reports on chain goes to
  the trash, and any other is persisted and its hash is seen from then on.
\<close>

fun dedup_outcomes :: "TxProcessorOpts \<Rightarrow> hash set \<Rightarrow> (env \<times> TxIn) list \<Rightarrow> outcome list" where
  "dedup_outcomes p seen [] = []"
| "dedup_outcomes p seen (x # xs) =
     (if Hash (Tx (snd x)) \<in> seen then AlreadyProcessed # dedup_outcomes p seen xs
      else if included p (fst x) then AlreadyOnChain # dedup_outcomes p seen xs
      else Persisted # dedup_outcomes p (insert (Hash (Tx (snd x))) seen) xs)"

text \<open>
  The arrivals that should leave a row in a txs file: for each hash not seen before,
  the first arrival that the check does not report on chain.
\<close>

fun first_unseen :: "TxProcessorOpts \<Rightarrow> hash set \<Rightarrow> (env \<times> TxIn) list \<Rightarrow> TxIn list" where
  "first_unseen p seen [] = []"
| "first_unseen p seen (x # xs) =
     (if Hash (Tx (snd x)) \<in> seen \<or> included p (fst x) then first_unseen p seen xs
      else snd x # first_unseen p (insert (Hash (Tx (snd x))) seen) xs)"

section \<open>Printing and paths\<close>

lemma same_cache_refl [simp]: "same_cache s s"
  by (simp add: same_cache_def)

lemma same_cache_trans: "same_cache s s1 \<Longrightarrow> same_cache s1 s2 \<Longrightarrow> same_cache s s2"
  by (simp add: same_cache_def)

lemma MkdirAll_same: "MkdirAll e d s = (r, s') \<Longrightarrow> same_cache s s' \<and> outFiles s' = outFiles s"
  by (auto simp: MkdirAll_def content_def same_cache_def split: option.splits)

lemma content_upd [simp]:
  "content (s\<lparr>outFiles := a\<rparr>) = content s"
  "content (s\<lparr>knownTxs := b\<rparr>) = content s"
  "content (s\<lparr>txCnt := c\<rparr>) = content s"
  "content (s\<lparr>srcCnt := d\<rparr>) = content s"
  "content (s\<lparr>dirs := g\<rparr>) = content s"
  "content (s\<lparr>handles := h\<rparr>) = content s"
  "content (s\<lparr>logs := l\<rparr>) = content s"
  by (simp_all add: content_def fun_eq_iff)

lemma OpenFile_same: "OpenFile e f s = (r, s') \<Longrightarrow> same_cache s s' \<and> outFiles s' = outFiles s"
  by (auto simp: OpenFile_def content_def same_cache_def fun_eq_iff split: option.splits if_splits)

lemma getOutputCSVFiles_same:
  assumes "getOutputCSVFiles p e ts s = (r, s')"
  shows "same_cache s s'"
  using assms
  by (auto simp: getOutputCSVFiles_def Let_def same_cache_def
      split: option.splits prod.splits sum.splits dest!: MkdirAll_same OpenFile_same)

lemma digit_char_in: "n < 10 \<Longrightarrow> digit_char n \<in> set ''0123456789''"
  unfolding digit_char_def by (rule nth_mem) simp

lemma show_digits_set: "set (show_digits n) \<subseteq> set ''0123456789''"
proof (induction n rule: show_digits.induct)
  case (1 n)
  show ?case
  proof (cases "n < 10")
    case True
    then have "nat n < 10" by simp
    from digit_char_in [OF this] True show ?thesis
      by (subst show_digits.simps) simp
  next
    case False
    then have "nat (n mod 10) < 10" by simp
    from digit_char_in [OF this] False "1.IH" show ?thesis
      by (subst show_digits.simps) auto
  qed
qed

lemma show_digits_nonempty: "show_digits n \<noteq> []"
  by (subst show_digits.simps) simp

lemma appendInt_set: "set (appendInt x w) \<subseteq> set ''-0123456789''"
  using show_digits_set [of "\<bar>x\<bar>"] by (auto simp: appendInt_def Let_def)

lemma appendInt_nonempty: "appendInt x w \<noteq> []"
  by (simp add: appendInt_def Let_def show_digits_nonempty)

lemma format_DateOnly_no_sep: "CHR ''/'' \<notin> set (format_DateOnly b)"
proof -
  obtain y m d where c: "civil_from_days (b div 86400) = (y, m, d)"
    by (cases "civil_from_days (b div 86400)") auto
  have "CHR ''/'' \<notin> set (appendInt x w)" for x w
    using appendInt_set [of x w] by auto
  then show ?thesis
    by (simp add: format_DateOnly_def c)
qed

lemma format_DateOnly_nonempty: "format_DateOnly b \<noteq> []"
  by (simp add: format_DateOnly_def appendInt_nonempty split: prod.splits)

lemma getFilename_nonempty: "getFilename p pfx b \<noteq> []"
  by (simp add: getFilename_def Let_def)

lemma Join3: "d \<noteq> [] \<Longrightarrow> cat \<noteq> [] \<Longrightarrow>
   filepath_Join [root, d, cat] = (if root = [] then [] else root @ ''/'') @ d @ ''/'' @ cat"
  by (simp add: filepath_Join_def)

lemma Join2: "d \<noteq> [] \<Longrightarrow> f \<noteq> [] \<Longrightarrow> filepath_Join [d, f] = d @ ''/'' @ f"
  by (simp add: filepath_Join_def)

lemma bucket_path_eq:
  assumes "cat \<noteq> []"
  shows "bucket_path p cat pfx b =
     out_root p @ format_DateOnly b @ ''/'' @ cat @ ''/'' @ getFilename p pfx b"
proof -
  have dir: "filepath_Join [OutDir p, format_DateOnly b, cat] = out_root p @ format_DateOnly b @ ''/'' @ cat"
    using assms by (simp add: Join3 format_DateOnly_nonempty out_root_def)
  have "out_root p @ format_DateOnly b @ ''/'' @ cat \<noteq> []"
    using assms by simp
  then show ?thesis
    unfolding bucket_path_def bucket_dir_def dir by (simp add: Join2 getFilename_nonempty)
qed

lemma split_at_sep:
  "c \<notin> set xs \<Longrightarrow> c \<notin> set ys \<Longrightarrow> xs @ c # xs' = ys @ c # ys' \<Longrightarrow> xs = ys \<and> xs' = ys'"
proof (induction xs arbitrary: ys)
  case Nil
  then show ?case by (cases ys) auto
next
  case (Cons a xs)
  then show ?case by (cases ys) auto
qed

lemma bucket_path_category:
  assumes "bucket_path p c1 pfx1 b1 = bucket_path p c2 pfx2 b2" "c1 \<noteq> []" "c2 \<noteq> []"
    "CHR ''/'' \<notin> set c1" "CHR ''/'' \<notin> set c2"
  shows "c1 = c2"
proof -
  let ?r1 = "c1 @ CHR ''/'' # getFilename p pfx1 b1" and ?r2 = "c2 @ CHR ''/'' # getFilename p pfx2 b2"
  from assms have "format_DateOnly b1 @ CHR ''/'' # ?r1 = format_DateOnly b2 @ CHR ''/'' # ?r2"
    by (simp add: bucket_path_eq)
  from split_at_sep [OF format_DateOnly_no_sep format_DateOnly_no_sep this]
  have "?r1 = ?r2" by simp
  from split_at_sep [OF assms(4,5) this] show ?thesis by simp
qed

lemma txs_not_sourcelog: "FTxs (bucket_files p b1) \<noteq> FSourcelog (bucket_files p b2)"
  using bucket_path_category [of p "''transactions''" "''txs''" b1 "''sourcelog''" "''src''" b2]
  by (auto simp: bucket_files_def)

lemma txs_not_trash: "FTxs (bucket_files p b1) \<noteq> FTrash (bucket_files p b2)"
  using bucket_path_category [of p "''transactions''" "''txs''" b1 "''trash''" "''trash''" b2]
  by (auto simp: bucket_files_def)

lemma sourcelog_not_trash: "FSourcelog (bucket_files p b1) \<noteq> FTrash (bucket_files p b2)"
  using bucket_path_category [of p "''sourcelog''" "''src''" b1 "''trash''" "''trash''" b2]
  by (auto simp: bucket_files_def)




section \<open>Opening the files of a bucket\<close>

lemma MkdirAll_cases:
  "MkdirAll e d s = (r, s') \<Longrightarrow>
     (r = mkdir_err e d \<and> r \<noteq> None \<and> s' = s) \<or> (mkdir_err e d = None \<and> r = None \<and> s' = s\<lparr>dirs := insert d (dirs s)\<rparr>)"
  by (auto simp: MkdirAll_def split: option.splits)

lemma OpenFile_cases:
  "OpenFile e f s = (r, s') \<Longrightarrow>
     (\<exists>err. open_err e f = Some err \<and> r = Inl err \<and> s' = s)
     \<or> (open_err e f = None \<and> r = Inr f
          \<and> s' = s\<lparr>files := (files s)(f \<mapsto> content s f), handles := handles s @ [f]\<rparr>)"
  by (auto simp: OpenFile_def split: option.splits)

lemma getOutputCSVFiles_hit:
  "map_of (outFiles s) (bucketTS ts) = Some out \<Longrightarrow> getOutputCSVFiles p e ts s = (Inr (out, False), s)"
  by (simp add: getOutputCSVFiles_def bucketTS_def Let_def)

lemma getOutputCSVFiles_result:
  assumes "getOutputCSVFiles p e ts s = (Inr (out, c), s')" "files_inv p s"
  shows "out = bucket_files p (bucketTS ts) \<and> files_inv p s'"
proof (cases "map_of (outFiles s) (bucketTS ts)")
  case (Some cached)
  with assms(1) have "out = cached" "s' = s"
    by (simp_all add: getOutputCSVFiles_hit)
  moreover from Some have "(bucketTS ts, cached) \<in> set (outFiles s)"
    by (rule map_of_SomeD)
  ultimately show ?thesis using assms(2) by (auto simp: files_inv_def)
next
  case None
  with assms(1) have "out = bucket_files p (bucketTS ts) \<and> outFiles s' = (bucketTS ts, out) # outFiles s"
    by (auto simp: getOutputCSVFiles_def Let_def bucketTS_def bucket_files_def bucket_path_def bucket_dir_def
        split: option.splits prod.splits sum.splits
        dest!: MkdirAll_cases OpenFile_cases)
  with assms(2) show ?thesis by (auto simp: files_inv_def)
qed

subsection \<open>A step that fails\<close>






subsection \<open>The bucket of a timestamp\<close>

lemma files_inv_new [simp]: "files_inv p (NewTxProcessor disk)"
  by (simp add: files_inv_def NewTxProcessor_def)






section \<open>The paths through processTx\<close>

subsection \<open>The state through the steps\<close>

lemma log_msg_simps [simp]:
  "knownTxs (log_msg l m s) = knownTxs s" "txCnt (log_msg l m s) = txCnt s"
  "srcCnt (log_msg l m s) = srcCnt s" "content (log_msg l m s) = content s"
  "outFiles (log_msg l m s) = outFiles s" "logs (log_msg l m s) = logs s @ [(l, m)]"
  "handles (log_msg l m s) = handles s" "files (log_msg l m s) = files s"
  by (simp_all add: log_msg_def)

lemma content_write [simp]:
  "content (s\<lparr>files := (files s)(f \<mapsto> c)\<rparr>) = (content s)(f := c)"
  by (simp add: content_def fun_eq_iff)

lemma Fprintf_fails: "write_err e f = Some err \<Longrightarrow> Fprintf e f txt s = (Some err, s)"
  by (simp add: Fprintf_def)

lemma Fprintf_writes:
  "write_err e f = None \<Longrightarrow>
   Fprintf e f txt s = (None, s\<lparr>files := (files s)(f \<mapsto> content s f @ txt)\<rparr>)"
  by (simp add: Fprintf_def)

subsection \<open>The end of processTx\<close>

lemma first_encode_fails:
  "TxToRLPString (Tx a) = Inl err \<Longrightarrow>
   processTx_first e a out s =
     (ErrEncodeRlp err,
      log_msg Error ''failed to encode rlp''
        (s\<lparr>txCnt := txCnt s + 1, srcCnt := Inc ''first'' (Source a) (srcCnt s)\<rparr>))"
  by (simp add: processTx_first_def Let_def)

lemma first_write_fails:
  "TxToRLPString (Tx a) = Inr rlp \<Longrightarrow> write_err e (FTxs out) = Some err \<Longrightarrow>
   processTx_first e a out s =
     (ErrTxsWrite err,
      log_msg Error ''fmt.Fprintf''
        (s\<lparr>txCnt := txCnt s + 1, srcCnt := Inc ''first'' (Source a) (srcCnt s)\<rparr>))"
  by (simp add: processTx_first_def Let_def Fprintf_fails)

lemma first_persists:
  "TxToRLPString (Tx a) = Inr rlp \<Longrightarrow> write_err e (FTxs out) = None \<Longrightarrow>
   processTx_first e a out s =
     (Persisted,
      s\<lparr>txCnt := txCnt s + 1, srcCnt := Inc ''first'' (Source a) (srcCnt s),
        files := (files s)(FTxs out \<mapsto> content s (FTxs out) @ txs_row a rlp),
        knownTxs := (knownTxs s)(Hash (Tx a) \<mapsto> T a)\<rparr>)"
  by (simp add: processTx_first_def Let_def Fprintf_writes)

subsection \<open>The middle of processTx\<close>

lemma opened_sourcelog_fails:
  "WriteSourcelog p \<Longrightarrow> write_err e (FSourcelog out) = Some err \<Longrightarrow>
   processTx_opened p e a out s = (ErrSourcelogWrite err, log_msg Error ''fmt.Fprintf'' s)"
  by (simp add: processTx_opened_def Fprintf_fails)

lemma sourcelogged_simps [simp]:
  "knownTxs (sourcelogged p a out s) = knownTxs s" "txCnt (sourcelogged p a out s) = txCnt s"
  "srcCnt (sourcelogged p a out s) = srcCnt s" "outFiles (sourcelogged p a out s) = outFiles s"
  "logs (sourcelogged p a out s) = logs s"
  "content (sourcelogged p a out s) =
     (if WriteSourcelog p
      then (content s)(FSourcelog out := content s (FSourcelog out) @ sourcelog_row a)
      else content s)"
  by (simp_all add: sourcelogged_def)

lemma opened_after_sourcelog:
  assumes "WriteSourcelog p \<longrightarrow> write_err e (FSourcelog out) = None"
  shows "processTx_opened p e a out s =
     (case knownTxs s (Hash (Tx a)) of
        Some seen \<Rightarrow>
          (AlreadyProcessed, log_msg Debug ''transaction already processed'' (sourcelogged p a out s))
      | None \<Rightarrow>
          if included p e then
            (case Fprintf e (FTrash out) (trash_row a (the (receipt e)))
                    (log_msg Debug ''transaction already included'' (sourcelogged p a out s)) of
               (Some err, s3) \<Rightarrow> (ErrTrashWrite err, log_msg Error ''fmt.Fprintf'' s3)
             | (None, s3) \<Rightarrow> (AlreadyOnChain, s3))
          else processTx_first e a out (checked p e (sourcelogged p a out s)))"
  using assms
  by (auto simp: processTx_opened_def Let_def Fprintf_writes sourcelogged_def included_def checked_def
      split: option.splits)

lemma opened_duplicate:
  assumes "WriteSourcelog p \<longrightarrow> write_err e (FSourcelog out) = None" "knownTxs s (Hash (Tx a)) = Some t"
  shows "processTx_opened p e a out s =
     (AlreadyProcessed, log_msg Debug ''transaction already processed'' (sourcelogged p a out s))"
  using assms by (simp add: opened_after_sourcelog)

lemma opened_trash_fails:
  assumes "WriteSourcelog p \<longrightarrow> write_err e (FSourcelog out) = None" "knownTxs s (Hash (Tx a)) = None"
    "included p e" "write_err e (FTrash out) = Some err"
  shows "processTx_opened p e a out s =
     (ErrTrashWrite err,
      log_msg Error ''fmt.Fprintf''
        (log_msg Debug ''transaction already included'' (sourcelogged p a out s)))"
  using assms by (simp add: opened_after_sourcelog Fprintf_fails)

lemma opened_on_chain:
  assumes "WriteSourcelog p \<longrightarrow> write_err e (FSourcelog out) = None" "knownTxs s (Hash (Tx a)) = None"
    "included p e" "write_err e (FTrash out) = None"
  shows "processTx_opened p e a out s =
     (AlreadyOnChain,
      (log_msg Debug ''transaction already included'' (sourcelogged p a out s))
        \<lparr>files := (files (sourcelogged p a out s))
           (FTrash out \<mapsto> content (sourcelogged p a out s) (FTrash out) @ trash_row a (the (receipt e)))\<rparr>)"
  using assms by (simp add: opened_after_sourcelog Fprintf_writes)

lemma opened_first:
  assumes "WriteSourcelog p \<longrightarrow> write_err e (FSourcelog out) = None" "knownTxs s (Hash (Tx a)) = None"
    "\<not> included p e"
  shows "processTx_opened p e a out s = processTx_first e a out (checked p e (sourcelogged p a out s))"
  using assms by (simp add: opened_after_sourcelog)

subsection \<open>The beginning of processTx\<close>

lemma getOutputCSVFiles_fst_cong:
  "outFiles s1 = outFiles s2 \<Longrightarrow>
   fst (getOutputCSVFiles p e ts s1) = fst (getOutputCSVFiles p e ts s2)"
  by (auto simp: getOutputCSVFiles_def Let_def MkdirAll_def OpenFile_def split: option.splits)

lemma counted_simps [simp]:
  "knownTxs (counted a s) = knownTxs s" "txCnt (counted a s) = txCnt s"
  "content (counted a s) = content s" "outFiles (counted a s) = outFiles s"
  "logs (counted a s) = logs s @ [(Debug, ''processTx'')]"
  "srcCnt (counted a s) = IncKey ''unique'' (Source a) (Hex (Hash (Tx a))) (Inc ''all'' (Source a) (srcCnt s))"
  by (simp_all add: counted_def)

lemma announced_simps [simp]:
  "knownTxs (announced c out s) = knownTxs s" "txCnt (announced c out s) = txCnt s"
  "content (announced c out s) = content s" "outFiles (announced c out s) = outFiles s"
  "srcCnt (announced c out s) = srcCnt s"
  by (simp_all add: announced_def)

lemma processTx_open_fails:
  assumes "fst (getOutputCSVFiles p e (Unix (T a)) s) = Inl err"
  shows "processTx p e a s =
     (ErrGetOutputFiles err,
      log_msg Error ''getOutputFiles'' (snd (getOutputCSVFiles p e (Unix (T a)) (counted a s))))"
proof -
  have "fst (getOutputCSVFiles p e (Unix (T a)) (counted a s)) = Inl err"
    using assms getOutputCSVFiles_fst_cong [of "counted a s" s] by simp
  then show ?thesis
    by (cases "getOutputCSVFiles p e (Unix (T a)) (counted a s)")
      (simp add: processTx_def counted_def Let_def)
qed

lemma processTx_open_ok:
  assumes "fst (getOutputCSVFiles p e (Unix (T a)) s) = Inr (out, c)"
  shows "processTx p e a s =
     processTx_opened p e a out
       (announced c out (snd (getOutputCSVFiles p e (Unix (T a)) (counted a s))))"
proof -
  have "fst (getOutputCSVFiles p e (Unix (T a)) (counted a s)) = Inr (out, c)"
    using assms getOutputCSVFiles_fst_cong [of "counted a s" s] by simp
  then show ?thesis
    by (cases "getOutputCSVFiles p e (Unix (T a)) (counted a s)")
      (simp add: processTx_def counted_def announced_def Let_def)
qed

subsection \<open>The whole of processTx\<close>

lemma resolved_simps [simp]:
  "knownTxs (resolved p e a s) = knownTxs s" "txCnt (resolved p e a s) = txCnt s"
  "content (resolved p e a s) = content s"
  "logs (resolved p e a s) = logs s @ [(Debug, ''processTx'')]"
  "srcCnt (resolved p e a s) = IncKey ''unique'' (Source a) (Hex (Hash (Tx a))) (Inc ''all'' (Source a) (srcCnt s))"
proof -
  have "getOutputCSVFiles p e (Unix (T a)) (counted a s) =
      (fst (getOutputCSVFiles p e (Unix (T a)) (counted a s)), resolved p e a s)"
    by (simp add: resolved_def)
  from getOutputCSVFiles_same [OF this]
  show "knownTxs (resolved p e a s) = knownTxs s" "txCnt (resolved p e a s) = txCnt s"
    "content (resolved p e a s) = content s"
    "logs (resolved p e a s) = logs s @ [(Debug, ''processTx'')]"
    "srcCnt (resolved p e a s) = IncKey ''unique'' (Source a) (Hex (Hash (Tx a))) (Inc ''all'' (Source a) (srcCnt s))"
    by (simp_all add: same_cache_def)
qed

lemma files_inv_cong: "outFiles s1 = outFiles s2 \<Longrightarrow> files_inv p s1 = files_inv p s2"
  by (simp add: files_inv_def)

lemma getOutputCSVFiles_error:
  "getOutputCSVFiles p e ts s = (Inl err, s') \<Longrightarrow> outFiles s' = outFiles s"
  by (auto simp: getOutputCSVFiles_def Let_def MkdirAll_def OpenFile_def split: option.splits)

lemma getOutputCSVFiles_cached:
  "getOutputCSVFiles p e ts s = (Inr (out, c), s') \<Longrightarrow> map_of (outFiles s') (bucketTS ts) = Some out"
  by (auto simp: getOutputCSVFiles_def Let_def MkdirAll_def OpenFile_def bucketTS_def split: option.splits)

lemma getOutputCSVFiles_opens:
  "opens_ok e \<Longrightarrow> \<exists>out c. fst (getOutputCSVFiles p e ts s) = Inr (out, c)"
  by (auto simp: getOutputCSVFiles_def Let_def MkdirAll_def OpenFile_def opens_ok_def split: option.splits)

lemma resolved_error:
  assumes "fst (getOutputCSVFiles p e (Unix (T a)) s) = Inl err"
  shows "outFiles (resolved p e a s) = outFiles s"
proof -
  have "fst (getOutputCSVFiles p e (Unix (T a)) (counted a s)) = Inl err"
    using assms getOutputCSVFiles_fst_cong [of "counted a s" s] by simp
  then have "getOutputCSVFiles p e (Unix (T a)) (counted a s) = (Inl err, resolved p e a s)"
    by (simp add: resolved_def prod_eq_iff)
  from getOutputCSVFiles_error [OF this] show ?thesis by simp
qed

lemma resolved_ok:
  assumes "fst (getOutputCSVFiles p e (Unix (T a)) s) = Inr (out, c)"
  shows "map_of (outFiles (resolved p e a s)) (bucketTS (Unix (T a))) = Some out"
    and "files_inv p s \<Longrightarrow> out = arrival_files p a \<and> files_inv p (resolved p e a s)"
proof -
  have "fst (getOutputCSVFiles p e (Unix (T a)) (counted a s)) = Inr (out, c)"
    using assms getOutputCSVFiles_fst_cong [of "counted a s" s] by simp
  then have g: "getOutputCSVFiles p e (Unix (T a)) (counted a s) = (Inr (out, c), resolved p e a s)"
    by (simp add: resolved_def prod_eq_iff)
  from getOutputCSVFiles_cached [OF g]
  show "map_of (outFiles (resolved p e a s)) (bucketTS (Unix (T a))) = Some out" .
  assume "files_inv p s"
  then have "files_inv p (counted a s)"
    using files_inv_cong [of "counted a s" s] by simp
  from getOutputCSVFiles_result [OF g this]
  show "out = arrival_files p a \<and> files_inv p (resolved p e a s)"
    by (simp add: arrival_files_def)
qed

lemma checked_simps [simp]:
  "knownTxs (checked p e s) = knownTxs s" "txCnt (checked p e s) = txCnt s"
  "content (checked p e s) = content s" "outFiles (checked p e s) = outFiles s"
  "srcCnt (checked p e s) = srcCnt s" "files (checked p e s) = files s"
  by (simp_all add: checked_def)

text \<open>
  Every call of \<^verbatim>\<open>processTx\<close> takes one of eight paths, named by the \<^verbatim>\<open>return\<close> that ends it;
  on each path the conditions met and the final state are known.
\<close>

lemma processTx_cases [consumes 1, case_names open_fails sourcelog_fails duplicate trash_fails
    on_chain encode_fails txs_fails persisted]:
  assumes run: "processTx p e a s = (oc, s')"
  obtains
    (open_fails) err where
      "fst (getOutputCSVFiles p e (Unix (T a)) s) = Inl err"
      "oc = ErrGetOutputFiles err"
      "s' = log_msg Error ''getOutputFiles'' (resolved p e a s)"
  | (sourcelog_fails) out c err where
      "fst (getOutputCSVFiles p e (Unix (T a)) s) = Inr (out, c)"
      "WriteSourcelog p" "write_err e (FSourcelog out) = Some err"
      "oc = ErrSourcelogWrite err"
      "s' = log_msg Error ''fmt.Fprintf'' (announced c out (resolved p e a s))"
  | (duplicate) out c t where
      "fst (getOutputCSVFiles p e (Unix (T a)) s) = Inr (out, c)"
      "WriteSourcelog p \<longrightarrow> write_err e (FSourcelog out) = None"
      "knownTxs s (Hash (Tx a)) = Some t"
      "oc = AlreadyProcessed"
      "s' = log_msg Debug ''transaction already processed''
              (sourcelogged p a out (announced c out (resolved p e a s)))"
  | (trash_fails) out c err where
      "fst (getOutputCSVFiles p e (Unix (T a)) s) = Inr (out, c)"
      "WriteSourcelog p \<longrightarrow> write_err e (FSourcelog out) = None"
      "knownTxs s (Hash (Tx a)) = None" "included p e" "write_err e (FTrash out) = Some err"
      "oc = ErrTrashWrite err"
      "s' = log_msg Error ''fmt.Fprintf'' (log_msg Debug ''transaction already included''
              (sourcelogged p a out (announced c out (resolved p e a s))))"
  | (on_chain) out c where
      "fst (getOutputCSVFiles p e (Unix (T a)) s) = Inr (out, c)"
      "WriteSourcelog p \<longrightarrow> write_err e (FSourcelog out) = None"
      "knownTxs s (Hash (Tx a)) = None" "included p e" "write_err e (FTrash out) = None"
      "oc = AlreadyOnChain"
      "s' = (log_msg Debug ''transaction already included''
               (sourcelogged p a out (announced c out (resolved p e a s))))
             \<lparr>files := (files (sourcelogged p a out (announced c out (resolved p e a s))))
                (FTrash out \<mapsto>
                   content (sourcelogged p a out (announced c out (resolved p e a s))) (FTrash out)
                     @ trash_row a (the (receipt e)))\<rparr>"
  | (encode_fails) out c err where
      "fst (getOutputCSVFiles p e (Unix (T a)) s) = Inr (out, c)"
      "WriteSourcelog p \<longrightarrow> write_err e (FSourcelog out) = None"
      "knownTxs s (Hash (Tx a)) = None" "\<not> included p e" "TxToRLPString (Tx a) = Inl err"
      "oc = ErrEncodeRlp err"
      "s' = log_msg Error ''failed to encode rlp''
              ((checked p e (sourcelogged p a out (announced c out (resolved p e a s))))
                 \<lparr>txCnt := txCnt s + 1,
                  srcCnt := Inc ''first'' (Source a) (srcCnt (resolved p e a s))\<rparr>)"
  | (txs_fails) out c rlp err where
      "fst (getOutputCSVFiles p e (Unix (T a)) s) = Inr (out, c)"
      "WriteSourcelog p \<longrightarrow> write_err e (FSourcelog out) = None"
      "knownTxs s (Hash (Tx a)) = None" "\<not> included p e" "TxToRLPString (Tx a) = Inr rlp"
      "write_err e (FTxs out) = Some err"
      "oc = ErrTxsWrite err"
      "s' = log_msg Error ''fmt.Fprintf''
              ((checked p e (sourcelogged p a out (announced c out (resolved p e a s))))
                 \<lparr>txCnt := txCnt s + 1,
                  srcCnt := Inc ''first'' (Source a) (srcCnt (resolved p e a s))\<rparr>)"
  | (persisted) out c rlp where
      "fst (getOutputCSVFiles p e (Unix (T a)) s) = Inr (out, c)"
      "WriteSourcelog p \<longrightarrow> write_err e (FSourcelog out) = None"
      "knownTxs s (Hash (Tx a)) = None" "\<not> included p e" "TxToRLPString (Tx a) = Inr rlp"
      "write_err e (FTxs out) = None"
      "oc = Persisted"
      "s' = (checked p e (sourcelogged p a out (announced c out (resolved p e a s))))
              \<lparr>txCnt := txCnt s + 1,
               srcCnt := Inc ''first'' (Source a) (srcCnt (resolved p e a s)),
               files := (files (sourcelogged p a out (announced c out (resolved p e a s))))
                 (FTxs out \<mapsto>
                    content (sourcelogged p a out (announced c out (resolved p e a s))) (FTxs out)
                      @ txs_row a rlp),
               knownTxs := (knownTxs s)(Hash (Tx a) \<mapsto> T a)\<rparr>"
proof (cases "fst (getOutputCSVFiles p e (Unix (T a)) s)")
  case (Inl err)
  with run processTx_open_fails [OF Inl] show ?thesis
    by (intro open_fails [of err]) (simp_all add: resolved_def)
next
  case (Inr r)
  obtain out c where r: "fst (getOutputCSVFiles p e (Unix (T a)) s) = Inr (out, c)"
    using Inr by (cases r) auto
  let ?s5 = "announced c out (resolved p e a s)"
  have run5: "processTx_opened p e a out ?s5 = (oc, s')"
    using run processTx_open_ok [OF r] by (simp add: resolved_def)
  show ?thesis
  proof (cases "WriteSourcelog p \<and> write_err e (FSourcelog out) \<noteq> None")
    case True
    then obtain err where "WriteSourcelog p" "write_err e (FSourcelog out) = Some err" by auto
    with run5 r show ?thesis
      by (intro sourcelog_fails [of out c err]) (simp_all add: opened_sourcelog_fails)
  next
    case False
    then have src: "WriteSourcelog p \<longrightarrow> write_err e (FSourcelog out) = None" by auto
    show ?thesis
    proof (cases "knownTxs s (Hash (Tx a))")
      case (Some t)
      with run5 r src show ?thesis
        by (intro duplicate [of out c t]) (simp_all add: opened_duplicate [where t = t])
    next
      case None
      then have unknown: "knownTxs ?s5 (Hash (Tx a)) = None" by simp
      show ?thesis
      proof (cases "included p e")
        case True
        show ?thesis
        proof (cases "write_err e (FTrash out)")
          case (Some err)
          with run5 r src None True show ?thesis
            using opened_trash_fails [OF src unknown True Some]
            by (intro trash_fails [of out c err]) simp_all
        next
          case wr: None
          with run5 r src None True show ?thesis
            using opened_on_chain [OF src unknown True wr]
            by (intro on_chain [of out c]) simp_all
        qed
      next
        case False
        let ?s6 = "checked p e (sourcelogged p a out ?s5)"
        have run6: "processTx_first e a out ?s6 = (oc, s')"
          using run5 opened_first [OF src unknown False] by simp
        show ?thesis
        proof (cases "TxToRLPString (Tx a)")
          case (Inl err)
          with run6 r src None False show ?thesis
            using first_encode_fails [OF Inl, of e out ?s6]
            by (intro encode_fails [of out c err]) simp_all
        next
          case enc: (Inr rlp)
          show ?thesis
          proof (cases "write_err e (FTxs out)")
            case (Some err)
            with run6 r src None False enc show ?thesis
              using first_write_fails [OF enc Some, of ?s6]
              by (intro txs_fails [of out c rlp err]) simp_all
          next
            case wr: None
            with run6 r src None False enc show ?thesis
              using first_persists [OF enc wr, of ?s6]
              by (intro persisted [of out c rlp]) simp_all
          qed
        qed
      qed
    qed
  qed
qed

subsection \<open>What a call leaves behind\<close>

lemma processTx_keeps_known:
  assumes "processTx p e a s = (oc, s')" "oc \<noteq> Persisted"
  shows "knownTxs s' = knownTxs s"
  using assms by (cases rule: processTx_cases) simp_all

lemma processTx_error_logged:
  assumes "processTx p e a s = (oc, s')" "is_error oc"
  shows "\<exists>msg. logs s' \<noteq> [] \<and> last (logs s') = (Error, msg)"
  using assms by (cases rule: processTx_cases) simp_all

lemma bucket_files_distinct [simp]:
  "FTxs (bucket_files p b1) \<noteq> FSourcelog (bucket_files p b2)"
  "FTxs (bucket_files p b1) \<noteq> FTrash (bucket_files p b2)"
  "FSourcelog (bucket_files p b1) \<noteq> FTrash (bucket_files p b2)"
  "FSourcelog (bucket_files p b1) \<noteq> FTxs (bucket_files p b2)"
  "FTrash (bucket_files p b1) \<noteq> FTxs (bucket_files p b2)"
  "FTrash (bucket_files p b1) \<noteq> FSourcelog (bucket_files p b2)"
  using txs_not_sourcelog [of p b1 b2] txs_not_trash [of p b1 b2] sourcelog_not_trash [of p b1 b2]
    txs_not_sourcelog [of p b2 b1] txs_not_trash [of p b2 b1] sourcelog_not_trash [of p b2 b1]
  by (simp_all add: eq_commute)

lemma content_files [simp]:
  "content (s\<lparr>files := (files t)(f \<mapsto> c)\<rparr>) = (content t)(f := c)"
  by (simp add: content_def fun_eq_iff)


lemma Get_Inc_other: "k \<noteq> k' \<Longrightarrow> Get k (Inc k' src c) = Get k c"
  by (simp add: Get_def Inc_def Let_def)

lemma Get_IncKey_other: "k \<noteq> k' \<Longrightarrow> Get k (IncKey k' src key c) = Get k c"
  by (simp add: Get_def IncKey_def Let_def)

lemma processTx_files_inv:
  assumes "processTx p e a s = (oc, s')" "files_inv p s"
  shows "files_inv p s'"
  using assms(1)
proof (cases rule: processTx_cases)
  case (open_fails err)
  from resolved_error [OF open_fails(1)] assms(2) show ?thesis
    unfolding open_fails(3) by (simp add: files_inv_def)
next
  case (sourcelog_fails out c err)
  from resolved_ok(2) [OF sourcelog_fails(1) assms(2)] show ?thesis
    unfolding sourcelog_fails(5) by (simp add: files_inv_def)
next
  case (duplicate out c t)
  from resolved_ok(2) [OF duplicate(1) assms(2)] show ?thesis
    unfolding duplicate(5) by (simp add: files_inv_def)
next
  case (trash_fails out c err)
  from resolved_ok(2) [OF trash_fails(1) assms(2)] show ?thesis
    unfolding trash_fails(7) by (simp add: files_inv_def)
next
  case (on_chain out c)
  from resolved_ok(2) [OF on_chain(1) assms(2)] show ?thesis
    unfolding on_chain(7) by (simp add: files_inv_def)
next
  case (encode_fails out c err)
  from resolved_ok(2) [OF encode_fails(1) assms(2)] show ?thesis
    unfolding encode_fails(7) by (simp add: files_inv_def)
next
  case (txs_fails out c rlp err)
  from resolved_ok(2) [OF txs_fails(1) assms(2)] show ?thesis
    unfolding txs_fails(8) by (simp add: files_inv_def)
next
  case (persisted out c rlp)
  from resolved_ok(2) [OF persisted(1) assms(2)] show ?thesis
    unfolding persisted(8) by (simp add: files_inv_def)
qed

section \<open>The row of a persisted transaction\<close>

lemma processTx_persists:
  assumes "opens_ok e" "writes_ok e" "knownTxs s (Hash (Tx a)) = None" "\<not> included p e"
    "MarshalBinary (Tx a) = Inr raw"
  shows "fst (processTx p e a s) = Persisted"
proof -
  obtain oc s' where run: "processTx p e a s = (oc, s')"
    by (cases "processTx p e a s") auto
  from run have "oc = Persisted"
    using assms getOutputCSVFiles_opens [OF assms(1), of p "Unix (T a)" s]
    by (cases rule: processTx_cases) (auto simp: writes_ok_def TxToRLPString_def)
  with run show ?thesis by simp
qed



lemma example_first_arrival:
  "fst (processTx opts_plain env_ok arrival_local (NewTxProcessor Map.empty)) = Persisted"
  "bucketTS (Unix (T arrival_local)) = 1699999200"
  "format_DateOnly 1699999200 = ''2023-11-14''"
  "format_DateHourMin 1699999200 = ''2023-11-14_22-00''"
  "show_int (UnixMilli (T arrival_local)) = ''1700000000000''"
  "Hex (Hash (Tx arrival_local)) = ''0xaa01''"
  "hexutil_Encode [0xbb, 0x02] = ''0xbb02''"
  by code_simp+


section \<open>When a hash becomes known\<close>

lemma processTx_persisted_written:
  assumes "processTx p e a s = (Persisted, s')"
  shows "\<exists>out c rlp. fst (getOutputCSVFiles p e (Unix (T a)) s) = Inr (out, c)
      \<and> TxToRLPString (Tx a) = Inr rlp \<and> write_err e (FTxs out) = None
      \<and> suffix (txs_row a rlp) (content s' (FTxs out))
      \<and> knownTxs s' = (knownTxs s)(Hash (Tx a) \<mapsto> T a)"
  using assms
proof (cases rule: processTx_cases)
  case (persisted out c rlp)
  have "suffix (txs_row a rlp) (content s' (FTxs out))"
    unfolding persisted(8) by (simp add: suffix_def)
  moreover have "knownTxs s' = (knownTxs s)(Hash (Tx a) \<mapsto> T a)"
    unfolding persisted(8) by simp
  ultimately show ?thesis
    using persisted(1,5,6) by blast
qed simp_all

lemma processTx_keeps_unknown:
  assumes "processTx p e a s = (oc, s')" "oc \<noteq> Persisted" "knownTxs s h = None"
  shows "knownTxs s' h = None"
  using processTx_keeps_known [OF assms(1,2)] assms(3) by simp

text \<open>
  Claim C3.  The cache of known transactions is updated, the hash inserted with the
  timestamp of the arrival, only after the row of the transaction is written to the
  txs file: a call that ends anywhere else leaves the cache as it was.  In particular a
  call that ends in an error (the open of the output files, the write to the
  sourcelog, the encoding, the write to the txs file, or the write to the trash file)
  has logged the error and returns with the cache unchanged, so that a hash not known
  before is not known after, and a later delivery of the same hash, in a world where
  every step succeeds and the transaction is not on chain, is persisted.
\<close>

theorem known_only_after_txs_write:
  assumes "processTx p e a s = (oc, s')"
  shows "(oc = Persisted \<longrightarrow>
            knownTxs s' = (knownTxs s)(Hash (Tx a) \<mapsto> T a)
            \<and> (\<exists>out c rlp. fst (getOutputCSVFiles p e (Unix (T a)) s) = Inr (out, c)
                   \<and> TxToRLPString (Tx a) = Inr rlp \<and> write_err e (FTxs out) = None
                   \<and> suffix (txs_row a rlp) (content s' (FTxs out))))
       \<and> (oc \<noteq> Persisted \<longrightarrow> knownTxs s' = knownTxs s)
       \<and> (is_error oc \<longrightarrow>
            knownTxs s' = knownTxs s \<and> (\<exists>msg. logs s' \<noteq> [] \<and> last (logs s') = (Error, msg)))
       \<and> (\<forall>e2 a2 raw. is_error oc \<and> knownTxs s (Hash (Tx a)) = None \<and> Hash (Tx a2) = Hash (Tx a)
              \<and> opens_ok e2 \<and> writes_ok e2 \<and> \<not> included p e2 \<and> MarshalBinary (Tx a2) = Inr raw
            \<longrightarrow> fst (processTx p e2 a2 s') = Persisted)"
proof (intro conjI impI allI)
  assume "oc = Persisted"
  with assms processTx_persisted_written [of p e a s s']
  show "knownTxs s' = (knownTxs s)(Hash (Tx a) \<mapsto> T a)"
    and "\<exists>out c rlp. fst (getOutputCSVFiles p e (Unix (T a)) s) = Inr (out, c)
                   \<and> TxToRLPString (Tx a) = Inr rlp \<and> write_err e (FTxs out) = None
                   \<and> suffix (txs_row a rlp) (content s' (FTxs out))"
    by blast+
next
  assume "oc \<noteq> Persisted"
  with assms show "knownTxs s' = knownTxs s" by (rule processTx_keeps_known)
next
  assume err: "is_error oc"
  then have "oc \<noteq> Persisted" by auto
  with assms show "knownTxs s' = knownTxs s" by (rule processTx_keeps_known)
  from assms err show "\<exists>msg. logs s' \<noteq> [] \<and> last (logs s') = (Error, msg)"
    by (rule processTx_error_logged)
next
  fix e2 and a2 :: TxIn and raw
  assume h: "is_error oc \<and> knownTxs s (Hash (Tx a)) = None \<and> Hash (Tx a2) = Hash (Tx a)
              \<and> opens_ok e2 \<and> writes_ok e2 \<and> \<not> included p e2 \<and> MarshalBinary (Tx a2) = Inr raw"
  then have "oc \<noteq> Persisted" by auto
  from processTx_keeps_unknown [OF assms this] h have "knownTxs s' (Hash (Tx a2)) = None" by simp
  with h show "fst (processTx p e2 a2 s') = Persisted"
    by (intro processTx_persists [where raw = raw]) simp_all
qed

lemma example_txs_write_fails:
  "fst (processTx opts_plain env_txs_fails arrival_local (NewTxProcessor Map.empty))
     = ErrTxsWrite ''no space left on device''"
  by code_simp

theorem known_only_after_txs_write_witness:
  "fst (processTx opts_plain env_txs_fails arrival_local (NewTxProcessor Map.empty))
     = ErrTxsWrite ''no space left on device''
   \<and> knownTxs (snd (processTx opts_plain env_txs_fails arrival_local (NewTxProcessor Map.empty)))
     = knownTxs (NewTxProcessor Map.empty)
   \<and> fst (processTx opts_plain env_ok arrival_blx
        (snd (processTx opts_plain env_txs_fails arrival_local (NewTxProcessor Map.empty)))) = Persisted"
proof -
  let ?r = "processTx opts_plain env_txs_fails arrival_local (NewTxProcessor Map.empty)"
  have run: "?r = (ErrTxsWrite ''no space left on device'', snd ?r)"
    using example_txs_write_fails by (simp add: prod_eq_iff)
  note c3 = known_only_after_txs_write [OF run]
  have ok: "opens_ok env_ok" "writes_ok env_ok" "\<not> included opts_plain env_ok"
    by (simp_all add: opens_ok_def writes_ok_def included_def env_ok_def opts_plain_def)
  have same: "Hash (Tx arrival_blx) = Hash (Tx arrival_local)"
    "MarshalBinary (Tx arrival_blx) = Inr [0xbb, 0x02]"
    "knownTxs (NewTxProcessor Map.empty) (Hash (Tx arrival_local)) = None"
    by (simp_all add: arrival_blx_def arrival_local_def NewTxProcessor_def)
  from c3 have "knownTxs (snd ?r) = knownTxs (NewTxProcessor Map.empty)"
    by simp
  moreover from c3 ok same
  have "fst (processTx opts_plain env_ok arrival_blx (snd ?r)) = Persisted"
    by (metis is_error.simps(5))
  ultimately show ?thesis using example_txs_write_fails by simp
qed

section \<open>Transactions already on chain\<close>

lemma processTx_on_chain:
  assumes inv: "files_inv p s"
    and chk: "included p e"
    and unknown: "knownTxs s (Hash (Tx a)) = None"
    and opened: "fst (getOutputCSVFiles p e (Unix (T a)) s) = Inr (out, c)"
    and src: "WriteSourcelog p \<longrightarrow> write_err e (FSourcelog out) = None"
    and run: "processTx p e a s = (oc, s')"
  shows "oc = (case write_err e (FTrash out) of None \<Rightarrow> AlreadyOnChain | Some err \<Rightarrow> ErrTrashWrite err)"
    and "content s' = (\<lambda>f. content s f
           @ (if WriteSourcelog p \<and> f = FSourcelog out then sourcelog_row a else [])
           @ (if f = FTrash out \<and> write_err e (FTrash out) = None
              then trash_row a (the (receipt e)) else []))"
    and "txCnt s' = txCnt s" and "knownTxs s' = knownTxs s"
    and "srcCnt s' = IncKey ''unique'' (Source a) (Hex (Hash (Tx a))) (Inc ''all'' (Source a) (srcCnt s))"
    and "fst (getOutputCSVFiles p e (Unix (T a)) s') = Inr (out, False)"
proof -
  from resolved_ok(2) [OF opened inv] have out: "out = arrival_files p a" by simp
  from run show "oc = (case write_err e (FTrash out) of None \<Rightarrow> AlreadyOnChain | Some err \<Rightarrow> ErrTrashWrite err)"
    using chk unknown opened src by (cases rule: processTx_cases) simp_all
  from run show "content s' = (\<lambda>f. content s f
           @ (if WriteSourcelog p \<and> f = FSourcelog out then sourcelog_row a else [])
           @ (if f = FTrash out \<and> write_err e (FTrash out) = None
              then trash_row a (the (receipt e)) else []))"
    using chk unknown opened src unfolding out
    by (cases rule: processTx_cases) (auto simp: fun_eq_iff arrival_files_def)
  from run show "txCnt s' = txCnt s" "knownTxs s' = knownTxs s"
    "srcCnt s' = IncKey ''unique'' (Source a) (Hex (Hash (Tx a))) (Inc ''all'' (Source a) (srcCnt s))"
    using chk unknown opened src by (cases rule: processTx_cases; simp)+
  from run have "outFiles s' = outFiles (resolved p e a s)"
    using chk unknown opened src by (cases rule: processTx_cases) simp_all
  with resolved_ok(1) [OF opened] have "map_of (outFiles s') (bucketTS (Unix (T a))) = Some out"
    by simp
  from getOutputCSVFiles_hit [OF this] show "fst (getOutputCSVFiles p e (Unix (T a)) s') = Inr (out, False)"
    by simp
qed

text \<open>
  Claim C4.  If the inclusion checker is configured and reports the transaction as
  included at block \<open>B\<close> (the call has the files of the bucket, has written the sourcelog
  row if it is to, and has not found the hash in the cache), \<^verbatim>\<open>processTx\<close> writes the row
  \<^verbatim>\<open><ts_ms>,<hash_hex>,<source>,tx-already-on-chain,<B>\<close> to the trash file and stops: when
  the write succeeds exactly that row is appended; in any case no txs file changes, the
  count of transactions and the counter \<^verbatim>\<open>first\<close> are as before, and the hash is not added
  to \<open>knownTxs\<close>.  An identical delivery after it again goes to the trash file, and not to
  a txs file.
\<close>

theorem on_chain_goes_to_trash:
  assumes inv: "files_inv p s"
    and chk: "CheckNodeURI p \<noteq> []" "receipt_err e = None" "receipt e = Some B"
    and unknown: "knownTxs s (Hash (Tx a)) = None"
    and opened: "fst (getOutputCSVFiles p e (Unix (T a)) s) = Inr (out, c)"
    and src: "WriteSourcelog p \<longrightarrow> write_err e (FSourcelog out) = None"
    and run1: "processTx p e a s = (oc, s')"
    and run2: "processTx p e a s' = (oc2, s'')"
  shows "(oc = AlreadyOnChain \<or> (\<exists>err. oc = ErrTrashWrite err))
    \<and> (write_err e (FTrash out) = None \<longrightarrow>
         oc = AlreadyOnChain
         \<and> content s' (FTrash out) =
             content s (FTrash out) @ show_int (UnixMilli (T a)) @ '','' @ Hex (Hash (Tx a)) @ '',''
               @ Source a @ '',tx-already-on-chain,'' @ show_int B @ [CHR 0x0A])
    \<and> (\<forall>b. content s' (FTxs (bucket_files p b)) = content s (FTxs (bucket_files p b)))
    \<and> txCnt s' = txCnt s \<and> Get ''first'' (srcCnt s') = Get ''first'' (srcCnt s)
    \<and> knownTxs s' = knownTxs s
    \<and> (oc2 = AlreadyOnChain \<or> (\<exists>err. oc2 = ErrTrashWrite err))
    \<and> (write_err e (FTrash out) = None \<longrightarrow>
         oc2 = AlreadyOnChain
         \<and> content s'' (FTrash out) =
             content s' (FTrash out) @ show_int (UnixMilli (T a)) @ '','' @ Hex (Hash (Tx a)) @ '',''
               @ Source a @ '',tx-already-on-chain,'' @ show_int B @ [CHR 0x0A])
    \<and> (\<forall>b. content s'' (FTxs (bucket_files p b)) = content s (FTxs (bucket_files p b)))
    \<and> knownTxs s'' = knownTxs s"
proof -
  have inc: "included p e" using chk by (simp add: included_def)
  from resolved_ok(2) [OF opened inv] have out: "out = arrival_files p a" by simp
  have row: "trash_row a (the (receipt e)) =
      show_int (UnixMilli (T a)) @ '','' @ Hex (Hash (Tx a)) @ '',''
          @ Source a @ '',tx-already-on-chain,'' @ show_int B @ [CHR 0x0A]"
    using chk(3) by (simp add: trash_row_def TrashTxAlreadyOnChain_def)
  note first = processTx_on_chain [OF inv inc unknown opened src run1]
  have inv': "files_inv p s'" using run1 inv by (rule processTx_files_inv)
  have unknown': "knownTxs s' (Hash (Tx a)) = None" using first(4) unknown by simp
  note second = processTx_on_chain [OF inv' inc unknown' first(6) src run2]
  have o1: "oc = AlreadyOnChain \<or> (\<exists>err. oc = ErrTrashWrite err)"
    and o2: "oc2 = AlreadyOnChain \<or> (\<exists>err. oc2 = ErrTrashWrite err)"
    and w1: "write_err e (FTrash out) = None \<longrightarrow> oc = AlreadyOnChain"
    and w2: "write_err e (FTrash out) = None \<longrightarrow> oc2 = AlreadyOnChain"
    unfolding first(1) second(1) by (simp_all split: option.splits)
  have t1: "write_err e (FTrash out) = None \<longrightarrow>
      content s' (FTrash out) = content s (FTrash out) @ trash_row a (the (receipt e))"
    unfolding first(2) out by (simp add: arrival_files_def)
  have t2: "write_err e (FTrash out) = None \<longrightarrow>
      content s'' (FTrash out) = content s' (FTrash out) @ trash_row a (the (receipt e))"
    unfolding second(2) out by (simp add: arrival_files_def)
  have x1: "content s' (FTxs (bucket_files p b)) = content s (FTxs (bucket_files p b))" for b
    unfolding first(2) out by (simp add: arrival_files_def)
  have x2: "content s'' (FTxs (bucket_files p b)) = content s' (FTxs (bucket_files p b))" for b
    unfolding second(2) out by (simp add: arrival_files_def)
  have cnt: "Get ''first'' (srcCnt s') = Get ''first'' (srcCnt s)"
    unfolding first(5) by (simp add: Get_Inc_other Get_IncKey_other)
  show ?thesis
    using o1 o2 w1 w2 first(3,4) second(4) t1 t2 x1 x2 cnt row by simp
qed

lemma example_on_chain:
  "fst (getOutputCSVFiles opts_check env_on_chain (Unix (T arrival_local)) (NewTxProcessor Map.empty)) =
     Inr (\<lparr>FTxs = ''out/2023-11-14/transactions/txs_2023-11-14_22-00_u1.csv'',
           FSourcelog = ''out/2023-11-14/sourcelog/src_2023-11-14_22-00_u1.csv'',
           FTrash = ''out/2023-11-14/trash/trash_2023-11-14_22-00_u1.csv''\<rparr>, True)"
  "bucket_files opts_check 1699999200 =
     \<lparr>FTxs = ''out/2023-11-14/transactions/txs_2023-11-14_22-00_u1.csv'',
      FSourcelog = ''out/2023-11-14/sourcelog/src_2023-11-14_22-00_u1.csv'',
      FTrash = ''out/2023-11-14/trash/trash_2023-11-14_22-00_u1.csv''\<rparr>"
  "show_int 18000000 = ''18000000''"
  "Source arrival_local = ''local''"
  by code_simp+

theorem on_chain_goes_to_trash_witness:
  "fst (processTx opts_check env_on_chain arrival_local (NewTxProcessor Map.empty)) = AlreadyOnChain
   \<and> content (snd (processTx opts_check env_on_chain arrival_local (NewTxProcessor Map.empty)))
        ''out/2023-11-14/trash/trash_2023-11-14_22-00_u1.csv''
      = ''1700000000000,0xaa01,local,tx-already-on-chain,18000000'' @ [CHR 0x0A]
   \<and> fst (processTx opts_check env_on_chain arrival_local
        (snd (processTx opts_check env_on_chain arrival_local (NewTxProcessor Map.empty)))) = AlreadyOnChain
   \<and> content (snd (processTx opts_check env_on_chain arrival_local
        (snd (processTx opts_check env_on_chain arrival_local (NewTxProcessor Map.empty)))))
        ''out/2023-11-14/transactions/txs_2023-11-14_22-00_u1.csv'' = []"
proof -
  let ?s0 = "NewTxProcessor Map.empty"
  let ?r1 = "processTx opts_check env_on_chain arrival_local ?s0"
  let ?r2 = "processTx opts_check env_on_chain arrival_local (snd ?r1)"
  have chk: "CheckNodeURI opts_check \<noteq> []" "receipt_err env_on_chain = None"
    "receipt env_on_chain = Some 18000000"
    by (simp_all add: opts_check_def env_on_chain_def env_ok_def)
  have unknown: "knownTxs ?s0 (Hash (Tx arrival_local)) = None"
    by (simp add: NewTxProcessor_def)
  have wr: "write_err env_on_chain f = None" for f
    by (simp add: env_on_chain_def env_ok_def)
  have empty: "content ?s0 f = []" for f
    by (simp add: content_def NewTxProcessor_def)
  from on_chain_goes_to_trash [OF files_inv_new chk unknown example_on_chain(1) _
      surjective_pairing [of ?r1] surjective_pairing [of ?r2]] wr
  have "fst ?r1 = AlreadyOnChain"
    and "content (snd ?r1) ''out/2023-11-14/trash/trash_2023-11-14_22-00_u1.csv'' =
       ''1700000000000,0xaa01,local,tx-already-on-chain,18000000'' @ [CHR 0x0A]"
    and "fst ?r2 = AlreadyOnChain"
    and "\<forall>b. content (snd ?r2) (FTxs (bucket_files opts_check b)) = []"
    by (simp_all add: empty example_on_chain(3,4) example_first_arrival(5,6))
  moreover from this(4) have "content (snd ?r2) (FTxs (bucket_files opts_check 1699999200)) = []"
    by blast
  ultimately show ?thesis
    by (simp add: example_on_chain(2))
qed

section \<open>Errors of the inclusion check\<close>












section \<open>The housekeeper and the cache of known transactions\<close>

lemma Since_expired: "Since now v > txCacheTime \<longleftrightarrow> now - v > txCacheTime"
  by (simp add: Since_def txCacheTime_def min_def max_def)

lemma knownTxs_Close [simp]: "knownTxs (Close f s) = knownTxs s"
  by (simp add: Close_def)

lemma knownTxs_log_msg [simp]: "knownTxs (log_msg l m s) = knownTxs s"
  by (simp add: log_msg_def)

lemma knownTxs_cleanupOutFiles: "knownTxs (cleanupOutFiles now l s) = knownTxs s"
  by (induction l arbitrary: s) (auto simp: Let_def)

lemma knownTxs_cleanupPass: "knownTxs (cleanupPass now s) = cleanupKnownTxs now (knownTxs s)"
  by (simp add: cleanupPass_def Let_def knownTxs_cleanupOutFiles)



section \<open>The timestamp of a known hash\<close>

lemma processTx_duplicate_stops:
  assumes "processTx p e a s = (oc, s')" "knownTxs s (Hash (Tx a)) = Some t"
  shows "knownTxs s' = knownTxs s"
    and "oc = AlreadyProcessed \<or> (\<exists>x. oc = ErrGetOutputFiles x) \<or> (\<exists>x. oc = ErrSourcelogWrite x)"
    and "opens_ok e \<and> writes_ok e \<longrightarrow> oc = AlreadyProcessed"
  using assms getOutputCSVFiles_opens [of e p "Unix (T a)" s]
  by (cases rule: processTx_cases; auto simp: writes_ok_def)+

lemma processTx_known_kept:
  assumes "processTx p e a s = (oc, s')" "knownTxs s h = Some t"
  shows "knownTxs s' h = Some t"
  using assms by (cases rule: processTx_cases) auto

lemma pass_keeps_fresh:
  assumes "knownTxs s h = Some t" "now - t \<le> txCacheTime"
  shows "knownTxs (cleanupPass now s) h = Some t"
  using assms by (simp add: knownTxs_cleanupPass cleanupKnownTxs_def Since_expired)

lemma run_keeps_known:
  assumes "knownTxs s h = Some t" "\<forall>now. Pass now \<in> set evs \<longrightarrow> now - t \<le> txCacheTime"
  shows "knownTxs (run p evs s) h = Some t"
  using assms
proof (induction p evs s rule: run.induct)
  case (1 p s)
  then show ?case by simp
next
  case (2 p e txIn evs s)
  have "knownTxs (snd (processTx p e txIn s)) h = Some t"
    using processTx_known_kept [OF surjective_pairing "2.prems"(1)] .
  with 2 show ?case by simp
next
  case (3 p now evs s)
  then have "knownTxs (cleanupPass now s) h = Some t"
    by (intro pass_keeps_fresh) simp_all
  with 3 show ?case by simp
qed

text \<open>
  Claim C10.  Once a hash is in \<open>knownTxs\<close> with a timestamp, no later arrival changes the
  stored value: through any history of arrivals and passes of the housekeeper in which
  no pass finds the entry expired, \<open>knownTxs\<close> holds the same timestamp for the hash.  An
  arrival of the hash returns at the probe of the cache, or before it on an error of
  the open or of the sourcelog write, and never reaches the insert; when the world lets
  every step succeed it returns at the probe.
\<close>

theorem known_timestamp_is_kept:
  assumes "knownTxs s h = Some t" "\<forall>now. Pass now \<in> set evs \<longrightarrow> now - t \<le> txCacheTime"
  shows "knownTxs (run p evs s) h = Some t
    \<and> (\<forall>e a. Hash (Tx a) = h \<longrightarrow>
          knownTxs (snd (processTx p e a s)) = knownTxs s
          \<and> (fst (processTx p e a s) = AlreadyProcessed
              \<or> (\<exists>x. fst (processTx p e a s) = ErrGetOutputFiles x)
              \<or> (\<exists>x. fst (processTx p e a s) = ErrSourcelogWrite x))
          \<and> (opens_ok e \<and> writes_ok e \<longrightarrow> fst (processTx p e a s) = AlreadyProcessed))"
proof (intro conjI allI impI)
  show "knownTxs (run p evs s) h = Some t"
    using assms by (rule run_keeps_known)
next
  fix e and a :: TxIn
  assume h: "Hash (Tx a) = h"
  with assms(1) have k: "knownTxs s (Hash (Tx a)) = Some t" by simp
  have run: "processTx p e a s = (fst (processTx p e a s), snd (processTx p e a s))" by simp
  note d = processTx_duplicate_stops [OF run k]
  show "knownTxs (snd (processTx p e a s)) = knownTxs s" by (rule d(1))
  show "fst (processTx p e a s) = AlreadyProcessed
              \<or> (\<exists>x. fst (processTx p e a s) = ErrGetOutputFiles x)
              \<or> (\<exists>x. fst (processTx p e a s) = ErrSourcelogWrite x)" by (rule d(2))
  assume "opens_ok e \<and> writes_ok e"
  with d(3) show "fst (processTx p e a s) = AlreadyProcessed" by simp
qed

lemma example_known:
  "knownTxs (snd (processTx opts_plain env_ok arrival_local (NewTxProcessor Map.empty))) [0xaa, 0x01]
     = Some 1700000000000000000"
  by code_simp

theorem known_timestamp_is_kept_witness:
  "knownTxs (snd (processTx opts_plain env_ok arrival_local (NewTxProcessor Map.empty))) [0xaa, 0x01]
     = Some 1700000000000000000
   \<and> knownTxs (run opts_plain
        [Arrival env_ok arrival_blx, Pass 1700000600000000000, Arrival env_txs_fails arrival_local]
        (snd (processTx opts_plain env_ok arrival_local (NewTxProcessor Map.empty)))) [0xaa, 0x01]
     = Some 1700000000000000000
   \<and> fst (processTx opts_plain env_ok arrival_blx
        (snd (processTx opts_plain env_ok arrival_local (NewTxProcessor Map.empty)))) = AlreadyProcessed"
proof -
  let ?s1 = "snd (processTx opts_plain env_ok arrival_local (NewTxProcessor Map.empty))"
  let ?evs = "[Arrival env_ok arrival_blx, Pass 1700000600000000000, Arrival env_txs_fails arrival_local]"
  have fresh: "\<forall>now. Pass now \<in> set ?evs \<longrightarrow> now - 1700000000000000000 \<le> txCacheTime"
    by (simp add: txCacheTime_def)
  note kept = known_timestamp_is_kept [OF example_known fresh, of opts_plain]
  have "Hash (Tx arrival_blx) = [0xaa, 0x01]" "opens_ok env_ok \<and> writes_ok env_ok"
    by (simp_all add: arrival_blx_def opens_ok_def writes_ok_def env_ok_def)
  with kept have "fst (processTx opts_plain env_ok arrival_blx ?s1) = AlreadyProcessed"
    by blast
  with kept example_known show ?thesis by blast
qed

section \<open>Sequences of arrivals\<close>

subsection \<open>The sourcelog\<close>

lemma processTx_sourcelog_row:
  assumes inv: "files_inv p s" and on: "WriteSourcelog p" and ok: "opens_ok e"
    and run: "processTx p e a s = (oc, s')"
  shows "content s' (FSourcelog (bucket_files p b)) =
     content s (FSourcelog (bucket_files p b))
       @ (if FSourcelog (arrival_files p a) = FSourcelog (bucket_files p b)
             \<and> write_err e (FSourcelog (arrival_files p a)) = None
          then sourcelog_row a else [])"
proof -
  from getOutputCSVFiles_opens [OF ok] obtain out c where
    opened: "fst (getOutputCSVFiles p e (Unix (T a)) s) = Inr (out, c)"
    by blast
  from resolved_ok(2) [OF opened inv] have out: "out = arrival_files p a" by simp
  from run show ?thesis
    using opened on unfolding out
    by (cases rule: processTx_cases) (auto simp: arrival_files_def)
qed

lemma processAll_Cons:
  "snd (processAll p (x # xs) s) = snd (processAll p xs (snd (processTx p (fst x) (snd x) s)))"
  "fst (processAll p (x # xs) s) =
     fst (processTx p (fst x) (snd x) s) # fst (processAll p xs (snd (processTx p (fst x) (snd x) s)))"
  by (simp_all split: prod.splits)

lemma processAll_files_inv:
  "files_inv p s \<Longrightarrow> files_inv p (snd (processAll p xs s))"
proof (induction xs arbitrary: s)
  case Nil
  then show ?case by simp
next
  case (Cons x xs)
  have "files_inv p (snd (processTx p (fst x) (snd x) s))"
    using processTx_files_inv [OF surjective_pairing Cons.prems] .
  from Cons.IH [OF this] show ?case
    by (simp only: processAll_Cons)
qed

text \<open>
  Claim C5.  When the sourcelog is enabled and the files of the buckets open, \<^verbatim>\<open>processTx\<close>
  writes exactly one row \<^verbatim>\<open><ts_ms>,<hash_hex>,<source>\<close> to the sourcelog file for every
  arrival, before the probe of the cache: after any sequence of arrivals, a sourcelog
  file has grown by the rows of the arrivals of its bucket, in the order of arrival, one
  for each arrival whose write the world has let through, whatever became of the
  arrival afterwards (hash already known, on chain, encoding or txs write failed).
\<close>

theorem sourcelog_has_every_arrival:
  assumes "files_inv p s" "WriteSourcelog p"
    and "\<forall>x \<in> set xs. opens_ok (fst x)"
  shows "content (snd (processAll p xs s)) (FSourcelog (bucket_files p b)) =
     content s (FSourcelog (bucket_files p b))
       @ concat (map (\<lambda>x. show_int (UnixMilli (T (snd x))) @ '','' @ Hex (Hash (Tx (snd x))) @ '',''
                          @ Source (snd x) @ [CHR 0x0A])
           [x \<leftarrow> xs. FSourcelog (arrival_files p (snd x)) = FSourcelog (bucket_files p b)
                      \<and> write_err (fst x) (FSourcelog (arrival_files p (snd x))) = None])"
  using assms
proof (induction xs arbitrary: s)
  case Nil
  then show ?case by simp
next
  case (Cons x xs)
  let ?s1 = "snd (processTx p (fst x) (snd x) s)"
  have run: "processTx p (fst x) (snd x) s = (fst (processTx p (fst x) (snd x) s), ?s1)"
    by simp
  from Cons.prems(3) have ok: "opens_ok (fst x)"
    and rest: "\<forall>x \<in> set xs. opens_ok (fst x)"
    by simp_all
  note step = processTx_sourcelog_row [OF Cons.prems(1,2) ok run, of b]
  have inv1: "files_inv p ?s1"
    using processTx_files_inv [OF run Cons.prems(1)] .
  from Cons.IH [OF inv1 Cons.prems(2) rest] step show ?case
    unfolding processAll_Cons by (auto simp: sourcelog_row_def)
qed

lemma example_sourcelog:
  "FSourcelog (arrival_files opts_plain arrival_local) = ''out/2023-11-14/sourcelog/src_2023-11-14_22-00_u1.csv''"
  "FSourcelog (arrival_files opts_plain arrival_blx) = ''out/2023-11-14/sourcelog/src_2023-11-14_22-00_u1.csv''"
  "FSourcelog (bucket_files opts_plain 1699999200) = ''out/2023-11-14/sourcelog/src_2023-11-14_22-00_u1.csv''"
  "show_int (UnixMilli (T arrival_blx)) = ''1700000000500''"
  "Hex (Hash (Tx arrival_blx)) = ''0xaa01''"
  "Source arrival_blx = ''blx''"
  by code_simp+

theorem sourcelog_has_every_arrival_witness:
  "files_inv opts_plain (NewTxProcessor Map.empty) \<and> WriteSourcelog opts_plain
   \<and> content (snd (processAll opts_plain [(env_ok, arrival_local), (env_txs_fails, arrival_blx)]
                     (NewTxProcessor Map.empty)))
        ''out/2023-11-14/sourcelog/src_2023-11-14_22-00_u1.csv''
      = ''1700000000000,0xaa01,local'' @ [CHR 0x0A] @ ''1700000000500,0xaa01,blx'' @ [CHR 0x0A]"
proof -
  let ?xs = "[(env_ok, arrival_local), (env_txs_fails, arrival_blx)]"
  have on: "WriteSourcelog opts_plain"
    by (simp add: opts_plain_def)
  have ok: "\<forall>x \<in> set ?xs. opens_ok (fst x)"
    by (simp add: opens_ok_def env_ok_def env_txs_fails_def)
  have wr: "write_err env_ok f = None"
    "write_err env_txs_fails ''out/2023-11-14/sourcelog/src_2023-11-14_22-00_u1.csv'' = None" for f
    by (simp_all add: env_ok_def env_txs_fails_def)
  have empty: "content (NewTxProcessor Map.empty) f = []" for f
    by (simp add: content_def NewTxProcessor_def)
  from sourcelog_has_every_arrival [OF files_inv_new on ok, of Map.empty 1699999200]
  show ?thesis
    using on
    by (simp add: empty example_sourcelog example_first_arrival(5,6) example_on_chain(4) wr
        del: processAll.simps)
qed

subsection \<open>One row for each hash\<close>

lemma processTx_all_succeeds:
  assumes inv: "files_inv p s" and ok: "opens_ok e" "writes_ok e"
    and enc: "MarshalBinary (Tx a) = Inr raw"
    and run: "processTx p e a s = (oc, s')"
  shows "oc = (if Hash (Tx a) \<in> dom (knownTxs s) then AlreadyProcessed
               else if included p e then AlreadyOnChain else Persisted)"
    and "knownTxs s' = (if oc = Persisted then (knownTxs s)(Hash (Tx a) \<mapsto> T a) else knownTxs s)"
    and "content s' (FTxs (bucket_files p b)) =
           content s (FTxs (bucket_files p b))
             @ (if oc = Persisted \<and> FTxs (arrival_files p a) = FTxs (bucket_files p b)
                then txs_row a (projr (TxToRLPString (Tx a))) else [])"
proof -
  from getOutputCSVFiles_opens [OF ok(1)] obtain out c where
    opened: "fst (getOutputCSVFiles p e (Unix (T a)) s) = Inr (out, c)"
    by blast
  from resolved_ok(2) [OF opened inv] have out: "out = arrival_files p a" by simp
  have wr: "write_err e f = None" for f using ok(2) by (simp add: writes_ok_def)
  have rlp: "TxToRLPString (Tx a) = Inr (hexutil_Encode raw)"
    using enc by (simp add: TxToRLPString_def)
  from run show "oc = (if Hash (Tx a) \<in> dom (knownTxs s) then AlreadyProcessed
               else if included p e then AlreadyOnChain else Persisted)"
    using opened wr rlp by (cases rule: processTx_cases) auto
  from run show "knownTxs s' = (if oc = Persisted then (knownTxs s)(Hash (Tx a) \<mapsto> T a) else knownTxs s)"
    by (cases rule: processTx_cases) simp_all
  from run show "content s' (FTxs (bucket_files p b)) =
           content s (FTxs (bucket_files p b))
             @ (if oc = Persisted \<and> FTxs (arrival_files p a) = FTxs (bucket_files p b)
                then txs_row a (projr (TxToRLPString (Tx a))) else [])"
    using opened wr rlp unfolding out
    by (cases rule: processTx_cases) (auto simp: arrival_files_def)
qed

lemma first_unseen_fresh:
  "a \<in> set (first_unseen p seen xs) \<Longrightarrow> Hash (Tx a) \<notin> seen"
  by (induction xs arbitrary: seen) (auto split: if_splits)

lemma first_unseen_distinct:
  "distinct (map (\<lambda>a. Hash (Tx a)) (first_unseen p seen xs))"
proof (induction xs arbitrary: seen)
  case Nil
  then show ?case by simp
next
  case (Cons x xs)
  show ?case
  proof (cases "Hash (Tx (snd x)) \<in> seen \<or> included p (fst x)")
    case True
    with Cons.IH [of seen] show ?thesis by simp
  next
    case False
    have "Hash (Tx (snd x)) \<notin> set (map (\<lambda>a. Hash (Tx a))
        (first_unseen p (insert (Hash (Tx (snd x))) seen) xs))"
    proof
      assume "Hash (Tx (snd x)) \<in> set (map (\<lambda>a. Hash (Tx a))
        (first_unseen p (insert (Hash (Tx (snd x))) seen) xs))"
      then obtain a where a: "a \<in> set (first_unseen p (insert (Hash (Tx (snd x))) seen) xs)"
        and h: "Hash (Tx a) = Hash (Tx (snd x))"
        by auto
      from first_unseen_fresh [OF a] h show False by simp
    qed
    with False Cons.IH [of "insert (Hash (Tx (snd x))) seen"] show ?thesis by simp
  qed
qed

lemma first_unseen_hashes:
  "set (map (\<lambda>a. Hash (Tx a)) (first_unseen p seen xs)) =
     {h. \<exists>x \<in> set xs. Hash (Tx (snd x)) = h \<and> \<not> included p (fst x)} - seen"
proof (induction xs arbitrary: seen)
  case Nil
  then show ?case by simp
next
  case (Cons x xs)
  show ?case
    unfolding first_unseen.simps using Cons.IH [of seen] Cons.IH [of "insert (Hash (Tx (snd x))) seen"]
    by (cases "Hash (Tx (snd x)) \<in> seen \<or> included p (fst x)") auto
qed

lemma processAll_dedup:
  assumes "files_inv p s"
    and "\<forall>x \<in> set xs. opens_ok (fst x) \<and> writes_ok (fst x)
           \<and> (\<exists>raw. MarshalBinary (Tx (snd x)) = Inr raw)"
  shows "fst (processAll p xs s) = dedup_outcomes p (dom (knownTxs s)) xs
    \<and> content (snd (processAll p xs s)) (FTxs (bucket_files p b)) =
        content s (FTxs (bucket_files p b))
          @ concat (map (\<lambda>a. txs_row a (projr (TxToRLPString (Tx a))))
              [a \<leftarrow> first_unseen p (dom (knownTxs s)) xs.
                 FTxs (arrival_files p a) = FTxs (bucket_files p b)])"
  using assms
proof (induction xs arbitrary: s)
  case Nil
  then show ?case by simp
next
  case (Cons x xs)
  let ?oc = "fst (processTx p (fst x) (snd x) s)" and ?s1 = "snd (processTx p (fst x) (snd x) s)"
  have run: "processTx p (fst x) (snd x) s = (?oc, ?s1)" by simp
  from Cons.prems(2) obtain raw where ok: "opens_ok (fst x)" "writes_ok (fst x)"
    and enc: "MarshalBinary (Tx (snd x)) = Inr raw"
    and rest: "\<forall>x \<in> set xs. opens_ok (fst x) \<and> writes_ok (fst x)
           \<and> (\<exists>raw. MarshalBinary (Tx (snd x)) = Inr raw)"
    by auto
  note step = processTx_all_succeeds [OF Cons.prems(1) ok enc run]
  have inv1: "files_inv p ?s1"
    using processTx_files_inv [OF run Cons.prems(1)] .
  have seen: "dom (knownTxs ?s1) =
      (if ?oc = Persisted then insert (Hash (Tx (snd x))) (dom (knownTxs s)) else dom (knownTxs s))"
    unfolding step(2) by simp
  note ih = Cons.IH [OF inv1 rest]
  show ?case
  proof (cases "Hash (Tx (snd x)) \<in> dom (knownTxs s)")
    case True
    with step(1) have oc: "?oc = AlreadyProcessed" by simp
    with ih seen step(3) True show ?thesis
      unfolding processAll_Cons by simp
  next
    case unknown: False
    show ?thesis
    proof (cases "included p (fst x)")
      case True
      with step(1) unknown have oc: "?oc = AlreadyOnChain" by simp
      with ih seen step(3) True unknown show ?thesis
        unfolding processAll_Cons by simp
    next
      case False
      with step(1) unknown have oc: "?oc = Persisted" by simp
      with ih seen step(3) False unknown show ?thesis
        unfolding processAll_Cons by simp
    qed
  qed
qed

text \<open>
  Claim C1.  For any sequence of arrivals in which hashes repeat, processed in a world
  where every open, every write and every encoding succeeds and between which no entry
  is evicted, the txs files receive exactly one row per distinct hash that was not
  known before and for which the inclusion check reports not on chain.  The calls end
  as \<open>dedup_outcomes\<close> says: the first such arrival of a hash is persisted, and every later
  arrival of the hash stops at the probe of the cache.  Each txs file grows by the rows
  of the persisted arrivals of its bucket, in order; these arrivals have distinct
  hashes, and their hashes are exactly the hashes in question.
\<close>

theorem one_row_per_distinct_hash:
  assumes "files_inv p s"
    and "\<forall>x \<in> set xs. opens_ok (fst x) \<and> writes_ok (fst x)
           \<and> (\<exists>raw. MarshalBinary (Tx (snd x)) = Inr raw)"
  shows "fst (processAll p xs s) = dedup_outcomes p (dom (knownTxs s)) xs
    \<and> (\<forall>b. content (snd (processAll p xs s)) (FTxs (bucket_files p b)) =
          content s (FTxs (bucket_files p b))
            @ concat (map (\<lambda>a. txs_row a (projr (TxToRLPString (Tx a))))
                [a \<leftarrow> first_unseen p (dom (knownTxs s)) xs.
                   FTxs (arrival_files p a) = FTxs (bucket_files p b)]))
    \<and> distinct (map (\<lambda>a. Hash (Tx a)) (first_unseen p (dom (knownTxs s)) xs))
    \<and> set (map (\<lambda>a. Hash (Tx a)) (first_unseen p (dom (knownTxs s)) xs)) =
        {h. \<exists>x \<in> set xs. Hash (Tx (snd x)) = h \<and> \<not> included p (fst x)} - dom (knownTxs s)"
  using processAll_dedup [OF assms] first_unseen_distinct [of p "dom (knownTxs s)" xs]
    first_unseen_hashes [of p "dom (knownTxs s)" xs]
  by blast

lemma example_txs:
  "FTxs (arrival_files opts_plain arrival_local) = ''out/2023-11-14/transactions/txs_2023-11-14_22-00_u1.csv''"
  "FTxs (bucket_files opts_plain 1699999200) = ''out/2023-11-14/transactions/txs_2023-11-14_22-00_u1.csv''"
  "projr (TxToRLPString (Tx arrival_local)) = ''0xbb02''"
  by code_simp+

theorem one_row_per_distinct_hash_witness:
  "files_inv opts_plain (NewTxProcessor Map.empty)
   \<and> fst (processAll opts_plain [(env_ok, arrival_local), (env_ok, arrival_blx)] (NewTxProcessor Map.empty))
      = [Persisted, AlreadyProcessed]
   \<and> content (snd (processAll opts_plain [(env_ok, arrival_local), (env_ok, arrival_blx)]
                     (NewTxProcessor Map.empty)))
        ''out/2023-11-14/transactions/txs_2023-11-14_22-00_u1.csv''
      = ''1700000000000,0xaa01,0xbb02'' @ [CHR 0x0A]"
proof -
  let ?xs = "[(env_ok, arrival_local), (env_ok, arrival_blx)]"
  have ok: "\<forall>x \<in> set ?xs. opens_ok (fst x) \<and> writes_ok (fst x)
           \<and> (\<exists>raw. MarshalBinary (Tx (snd x)) = Inr raw)"
    by (simp add: opens_ok_def writes_ok_def env_ok_def arrival_local_def arrival_blx_def)
  have empty: "content (NewTxProcessor Map.empty) f = []" for f
    by (simp add: content_def NewTxProcessor_def)
  have none: "dom (knownTxs (NewTxProcessor Map.empty)) = {}"
    by (simp add: NewTxProcessor_def)
  have same: "Hash (Tx arrival_blx) = Hash (Tx arrival_local)" "\<not> included opts_plain env_ok"
    by (simp_all add: arrival_blx_def arrival_local_def included_def opts_plain_def)
  have outcomes: "dedup_outcomes opts_plain {} ?xs = [Persisted, AlreadyProcessed]"
    and rows: "first_unseen opts_plain {} ?xs = [arrival_local]"
    by (simp_all add: same)
  note c1 = one_row_per_distinct_hash [OF files_inv_new [of opts_plain Map.empty] ok,
      unfolded none outcomes rows]
  from c1 have first: "fst (processAll opts_plain ?xs (NewTxProcessor Map.empty))
      = [Persisted, AlreadyProcessed]"
    by blast
  from c1 have "\<forall>b. content (snd (processAll opts_plain ?xs (NewTxProcessor Map.empty)))
            (FTxs (bucket_files opts_plain b)) =
          content (NewTxProcessor Map.empty) (FTxs (bucket_files opts_plain b))
            @ concat (map (\<lambda>a. txs_row a (projr (TxToRLPString (Tx a))))
                [a \<leftarrow> [arrival_local]. FTxs (arrival_files opts_plain a) = FTxs (bucket_files opts_plain b)])"
    by blast
  from this [rule_format, of 1699999200]
  have "content (snd (processAll opts_plain ?xs (NewTxProcessor Map.empty)))
        ''out/2023-11-14/transactions/txs_2023-11-14_22-00_u1.csv''
      = ''1700000000000,0xaa01,0xbb02'' @ [CHR 0x0A]"
    by (simp add: example_txs txs_row_def example_first_arrival(5,6) empty del: processAll.simps)
  with first show ?thesis
    by (simp del: processAll.simps)
qed

end
